theory Spec2Isabelle
  imports
    Main
    "HOL-Library.Multiset"
    "HOL-Library.Char_ord"
    "HOL-Library.List_Lexorder"
begin

section \<open>Strings of the Go runtime\<close>

text \<open>
  A Go string is a sequence of bytes and \<^verbatim>\<open>len\<close> counts bytes, so a Go string is a
  \<^typ>\<open>string\<close> (a list of 8-bit characters) and \<^verbatim>\<open>len\<close> is \<^const>\<open>length\<close>.
  Lengths and the chunk bound are natural numbers: the source uses \<^verbatim>\<open>int\<close>, but every
  length is non-negative and the sums the code forms are sums of lengths of strings
  held in memory together, far below the 64-bit range.
\<close>

abbreviation nl :: char where
  "nl \<equiv> CHR 0x0A"

text \<open>\<^verbatim>\<open>strings.HasPrefix\<close> and \<^verbatim>\<open>strings.Contains\<close>.\<close>

fun HasPrefix :: "string \<Rightarrow> string \<Rightarrow> bool" where
  "HasPrefix s [] = True"
| "HasPrefix [] (p # ps) = False"
| "HasPrefix (c # cs) (p # ps) = (c = p \<and> HasPrefix cs ps)"

fun Contains :: "string \<Rightarrow> string \<Rightarrow> bool" where
  "Contains [] substr = (substr = [])"
| "Contains (c # cs) substr = (HasPrefix (c # cs) substr \<or> Contains cs substr)"

text \<open>
  \<^verbatim>\<open>strings.Split(s, "\n")\<close>: the substrings between the newlines; a string without a
  newline, the empty one too, gives the one-element list holding it.
\<close>

fun Split_nl :: "string \<Rightarrow> string list" where
  "Split_nl [] = [[]]"
| "Split_nl (c # cs) =
     (if c = nl then [] # Split_nl cs
      else (c # hd (Split_nl cs)) # tl (Split_nl cs))"

text \<open>\<^verbatim>\<open>strings.Join(elems, sep)\<close>.\<close>

fun Join :: "string list \<Rightarrow> string \<Rightarrow> string" where
  "Join [] sep = []"
| "Join [x] sep = x"
| "Join (x # y # ys) sep = x @ sep @ Join (y # ys) sep"

section \<open>The chunker\<close>

subsection \<open>splitLongContent\<close>

text \<open>
  The inner loop of \<^verbatim>\<open>splitLongContent\<close> over one oversized line:
  \<^verbatim>\<open>for i := 0; i < len(line); i += maxSize { ...; chunks = append(chunks, line[i:end]) }\<close>.
  With \<^verbatim>\<open>maxSize = 0\<close> the index never advances and the loop does not end, so the loop
  is a partial function; \<open>None\<close> is "does not return".
\<close>

partial_function (option) byte_windows ::
  "string \<Rightarrow> nat \<Rightarrow> nat \<Rightarrow> string list \<Rightarrow> string list option" where
  "byte_windows line maxSize i chunks =
     (if i < length line then
        (let end = (if i + maxSize > length line then length line else i + maxSize)
         in byte_windows line maxSize (i + maxSize) (chunks @ [take (end - i) (drop i line)]))
      else Some chunks)"

declare byte_windows.simps [code]

text \<open>What the loop body does to \<^verbatim>\<open>currentChunk\<close> when the line is kept whole.\<close>

definition write_line :: "string \<Rightarrow> string \<Rightarrow> string" where
  "write_line currentChunk line =
     (if length currentChunk > 0 then currentChunk @ [nl] else currentChunk) @ line"

text \<open>The loop over the lines, on the state \<open>(chunks, currentChunk)\<close>, and the final flush.\<close>

fun split_lines ::
  "nat \<Rightarrow> string list \<Rightarrow> string list \<Rightarrow> string \<Rightarrow> string list option" where
  "split_lines maxSize [] chunks currentChunk =
     Some (if length currentChunk > 0 then chunks @ [currentChunk] else chunks)"
| "split_lines maxSize (line # lines) chunks currentChunk =
     (if length currentChunk + length line + 1 > maxSize then
        (let chunks1 = (if length currentChunk > 0 then chunks @ [currentChunk] else chunks);
             current1 = (if length currentChunk > 0 then [] else currentChunk)
         in if length line > maxSize then
              (case byte_windows line maxSize 0 chunks1 of
                 None \<Rightarrow> None
               | Some chunks2 \<Rightarrow> split_lines maxSize lines chunks2 current1)
            else split_lines maxSize lines chunks1 (write_line current1 line))
      else split_lines maxSize lines chunks (write_line currentChunk line))"

definition splitLongContent :: "string \<Rightarrow> nat \<Rightarrow> string list option" where
  "splitLongContent content maxSize = split_lines maxSize (Split_nl content) [] []"

subsection \<open>The file loop of Analyze\<close>

record fileInfo =
  name :: string
  content :: string

text \<open>\<^verbatim>\<open>fmt.Sprintf("File: %s\n\n%s\n\n", file.name, file.content)\<close>.\<close>

definition render :: "fileInfo \<Rightarrow> string" where
  "render file = ''File: '' @ name file @ [nl, nl] @ content file @ [nl, nl]"

text \<open>
  The loop of \<^verbatim>\<open>Analyze\<close> that fills \<^verbatim>\<open>chunks\<close>, on the state \<open>(chunks, currentChunk)\<close>,
  with the flush after the loop. The source fixes \<^verbatim>\<open>maxChunkSize\<close> at 1500; here it is
  an argument.
\<close>

fun chunk_loop ::
  "nat \<Rightarrow> fileInfo list \<Rightarrow> string list \<Rightarrow> string \<Rightarrow> string list option" where
  "chunk_loop maxChunkSize [] chunks currentChunk =
     Some (if length currentChunk > 0 then chunks @ [currentChunk] else chunks)"
| "chunk_loop maxChunkSize (file # files) chunks currentChunk =
     (let fileContent = render file
      in if length currentChunk + length fileContent > maxChunkSize then
           (let chunks1 = (if length currentChunk > 0 then chunks @ [currentChunk] else chunks);
                current1 = (if length currentChunk > 0 then [] else currentChunk)
            in if length fileContent > maxChunkSize then
                 (case splitLongContent fileContent maxChunkSize of
                    None \<Rightarrow> None
                  | Some parts \<Rightarrow> chunk_loop maxChunkSize files (chunks1 @ parts) current1)
               else chunk_loop maxChunkSize files chunks1 (current1 @ fileContent))
         else chunk_loop maxChunkSize files chunks (currentChunk @ fileContent))"

definition chunk_files :: "nat \<Rightarrow> fileInfo list \<Rightarrow> string list option" where
  "chunk_files maxChunkSize files = chunk_loop maxChunkSize files [] []"

subsection \<open>The chunker with the provenance of every chunk\<close>

text \<open>
  The same two loops with a ghost tag on every emitted chunk: \<open>Buffer\<close> for a flush of
  \<^verbatim>\<open>currentChunk\<close>, \<open>Window line\<close> for a slice made by the byte-window loop on
  \<open>line\<close> (the windows of the line are computed by \<open>byte_windows\<close> on their own and
  tagged before they are appended). The tags change nothing that is computed: erasing
  them gives the chunks of \<open>chunk_loop\<close>, which is proved together with the bound.
\<close>

datatype origin = Buffer | Window string

fun split_lines_traced ::
  "nat \<Rightarrow> string list \<Rightarrow> (string \<times> origin) list \<Rightarrow> string \<Rightarrow> (string \<times> origin) list option" where
  "split_lines_traced maxSize [] chunks currentChunk =
     Some (if length currentChunk > 0 then chunks @ [(currentChunk, Buffer)] else chunks)"
| "split_lines_traced maxSize (line # lines) chunks currentChunk =
     (if length currentChunk + length line + 1 > maxSize then
        (let chunks1 = (if length currentChunk > 0 then chunks @ [(currentChunk, Buffer)] else chunks);
             current1 = (if length currentChunk > 0 then [] else currentChunk)
         in if length line > maxSize then
              (case byte_windows line maxSize 0 [] of
                 None \<Rightarrow> None
               | Some windows \<Rightarrow>
                   split_lines_traced maxSize lines
                     (chunks1 @ map (\<lambda>w. (w, Window line)) windows) current1)
            else split_lines_traced maxSize lines chunks1 (write_line current1 line))
      else split_lines_traced maxSize lines chunks (write_line currentChunk line))"

fun chunk_loop_traced ::
  "nat \<Rightarrow> fileInfo list \<Rightarrow> (string \<times> origin) list \<Rightarrow> string \<Rightarrow> (string \<times> origin) list option" where
  "chunk_loop_traced maxChunkSize [] chunks currentChunk =
     Some (if length currentChunk > 0 then chunks @ [(currentChunk, Buffer)] else chunks)"
| "chunk_loop_traced maxChunkSize (file # files) chunks currentChunk =
     (let fileContent = render file
      in if length currentChunk + length fileContent > maxChunkSize then
           (let chunks1 = (if length currentChunk > 0 then chunks @ [(currentChunk, Buffer)] else chunks);
                current1 = (if length currentChunk > 0 then [] else currentChunk)
            in if length fileContent > maxChunkSize then
                 (case split_lines_traced maxChunkSize (Split_nl fileContent) [] [] of
                    None \<Rightarrow> None
                  | Some parts \<Rightarrow> chunk_loop_traced maxChunkSize files (chunks1 @ parts) current1)
               else chunk_loop_traced maxChunkSize files chunks1 (current1 @ fileContent))
         else chunk_loop_traced maxChunkSize files chunks (currentChunk @ fileContent))"

definition chunk_files_traced :: "nat \<Rightarrow> fileInfo list \<Rightarrow> (string \<times> origin) list option" where
  "chunk_files_traced maxChunkSize files = chunk_loop_traced maxChunkSize files [] []"

text \<open>The bound a traced chunk has to meet, and what its tag has to say.\<close>

definition bounded_piece :: "nat \<Rightarrow> string \<times> origin \<Rightarrow> bool" where
  "bounded_piece m p =
     (length (fst p) \<le> m \<and> (case snd p of Buffer \<Rightarrow> True | Window line \<Rightarrow> m < length line))"

section \<open>File selection\<close>

text \<open>
  \<^verbatim>\<open>input.Files\<close> is a Go map, and the order in which \<^verbatim>\<open>range\<close> visits it is not
  fixed: the map is the list of its entries in the order of the run at hand.
  \<^verbatim>\<open>sort.Slice\<close> is not stable either, so all the source fixes is that the slice ends
  up as a permutation of the entries that is sorted for the comparison. The model
  sorts by stable insertion; a list that is already sorted for the comparison is
  returned as it is (\<open>sort_Slice_sorted_id\<close>), so every slice the unstable sort can
  leave for some visiting order is what the model returns for a visiting order.
\<close>

definition collect_files :: "(string \<times> string) list \<Rightarrow> fileInfo list" where
  "collect_files entries = map (\<lambda>(n, c). \<lparr>name = n, content = c\<rparr>) entries"

definition isMain :: "fileInfo \<Rightarrow> bool" where
  "isMain f = (Contains (name f) ''main.'' \<or> Contains (name f) ''index.'')"

text \<open>The comparison handed to \<^verbatim>\<open>sort.Slice\<close>.\<close>

definition less_file :: "fileInfo \<Rightarrow> fileInfo \<Rightarrow> bool" where
  "less_file fi fj =
     (let iMain = isMain fi; jMain = isMain fj
      in if iMain \<noteq> jMain then iMain
         else length (content fi) < length (content fj))"

fun insert_file :: "fileInfo \<Rightarrow> fileInfo list \<Rightarrow> fileInfo list" where
  "insert_file f [] = [f]"
| "insert_file f (g # gs) = (if less_file g f then g # insert_file f gs else f # g # gs)"

fun sort_Slice :: "fileInfo list \<Rightarrow> fileInfo list" where
  "sort_Slice [] = []"
| "sort_Slice (f # fs) = insert_file f (sort_Slice fs)"

section \<open>The language listing\<close>

text \<open>
  \<^verbatim>\<open>formatLanguages\<close>. The percentages are \<^verbatim>\<open>float64\<close> and the verb \<^verbatim>\<open>%.1f\<close> belongs to
  Go's \<^verbatim>\<open>fmt\<close> package: the type of percentages is a type variable and the rendering
  of one percentage is the argument \<open>fmt_pct\<close>. \<^verbatim>\<open>sort.Strings\<close> sorts in ascending
  byte-wise lexicographic order, which is the order of \<^typ>\<open>string\<close> here.
\<close>

definition format_language :: "('f \<Rightarrow> string) \<Rightarrow> string \<times> 'f \<Rightarrow> string" where
  "format_language fmt_pct entry = fst entry @ '' ('' @ fmt_pct (snd entry) @ ''%)''"

definition formatLanguages :: "('f \<Rightarrow> string) \<Rightarrow> (string \<times> 'f) list \<Rightarrow> string" where
  "formatLanguages fmt_pct langs = Join (sort (map (format_language fmt_pct) langs)) '', ''"

section \<open>Analyze\<close>

subsection \<open>Input, output, errors\<close>

datatype Component = Component string string string string

record 'f AnalyzeInput =
  Files :: "(string \<times> string) list"
  Languages :: "(string \<times> 'f) list"
  ContextSize :: int
  DirStructure :: string
  IsDetailed :: bool

record AnalyzeOutput =
  Description :: string
  Architecture :: string
  Components :: "Component list"
  Setup :: string
  FlowDiagram :: string

text \<open>
  The errors \<^verbatim>\<open>Analyze\<close> returns, over the type \<open>'e\<close> of the errors of
  \<^verbatim>\<open>makeRequest\<close>: \<open>Request err\<close> is \<^verbatim>\<open>err\<close> itself, \<open>AnalyzeChunk k err\<close> is
  \<^verbatim>\<open>fmt.Errorf("failed to analyze chunk %d: %w", k, err)\<close> and \<open>GenerateSummary err\<close>
  is \<^verbatim>\<open>fmt.Errorf("failed to generate summary: %w", err)\<close>.
\<close>

datatype 'e error = Request 'e | AnalyzeChunk nat 'e | GenerateSummary 'e

text \<open>
  How a call of \<^verbatim>\<open>Analyze\<close> ends: it returns an output and a nil error, it returns a
  nil output and an error, or the index expression \<^verbatim>\<open>descriptions[0]\<close> panics.
\<close>

datatype 'e result = Ok AnalyzeOutput | Failed "'e error" | Panic_index_out_of_range

subsection \<open>The completion endpoint and the progress callback\<close>

text \<open>
  The state records what \<^verbatim>\<open>Analyze\<close> does to the outside: the prompts handed to
  \<^verbatim>\<open>makeRequest\<close> and the calls of the progress callback, both in order.
\<close>

type_synonym event = "string \<times> nat \<times> nat \<times> string"

record pstate =
  calls :: "string list"
  events :: "event list"

text \<open>
  \<^verbatim>\<open>makeRequest\<close> is one exchange with the remote endpoint. What comes back (the text
  of the first choice, or the error of whichever step failed) is decided outside the
  program: it is the argument \<open>complete\<close>, a function of the prompts sent before and
  of the prompt sent now.
\<close>

type_synonym 'e port = "string list \<Rightarrow> string \<Rightarrow> 'e + string"

definition makeRequest :: "'e port \<Rightarrow> string \<Rightarrow> pstate \<Rightarrow> ('e + string) \<times> pstate" where
  "makeRequest complete prompt st =
     (complete (calls st) prompt, st\<lparr>calls := calls st @ [prompt]\<rparr>)"

text \<open>
  \<^verbatim>\<open>if progress != nil { progress(...) }\<close>; the flag says whether a callback was given.
\<close>

definition report :: "bool \<Rightarrow> event \<Rightarrow> pstate \<Rightarrow> pstate" where
  "report progress ev st = (if progress then st\<lparr>events := events st @ [ev]\<rparr> else st)"

subsection \<open>Prompts\<close>

definition quick_prompt :: "('f \<Rightarrow> string) \<Rightarrow> 'f AnalyzeInput \<Rightarrow> string" where
  "quick_prompt fmt_pct input =
     ''Analyze this codebase and provide a quick overview:'' @ [nl, nl]
     @ ''Directory Structure:'' @ [nl]
     @ DirStructure input @ [nl, nl]
     @ ''Languages:'' @ [nl]
     @ formatLanguages fmt_pct (Languages input) @ [nl, nl]
     @ ''Please provide:'' @ [nl]
     @ ''1. A brief description of what this codebase likely does'' @ [nl]
     @ ''2. Main components and their purpose (based on directory structure)'' @ [nl]
     @ ''3. Technologies used (based on file types and languages)'' @ [nl]
     @ ''4. Setup/build system (based on manifest files)'' @ [nl, nl]
     @ ''Focus on high-level understanding and keep it concise.''"

definition chunk_prompt :: "string \<Rightarrow> string" where
  "chunk_prompt chunk =
     ''Analyze this part of the codebase. Focus on key components, patterns, and functionality. Be concise:''
     @ [nl, nl] @ chunk"

definition summary_prompt :: "string list \<Rightarrow> string" where
  "summary_prompt descriptions =
     ''Combine these analysis parts into a concise overview focusing on key components and architecture:''
     @ [nl, nl] @ Join descriptions ([nl, nl] @ ''---'' @ [nl, nl])"

subsection \<open>The two paths\<close>

definition analyze_output :: "string \<Rightarrow> AnalyzeOutput" where
  "analyze_output description =
     \<lparr>Description = description, Architecture = [], Components = [], Setup = [],
      FlowDiagram = []\<rparr>"

definition Analyze_quick ::
  "'e port \<Rightarrow> ('f \<Rightarrow> string) \<Rightarrow> 'f AnalyzeInput \<Rightarrow> bool \<Rightarrow> pstate \<Rightarrow> 'e result \<times> pstate" where
  "Analyze_quick complete fmt_pct input progress st =
     (let st1 = report progress (''Preparing quick summary'', 0, 1, []) st;
          prompt = quick_prompt fmt_pct input;
          (response, st2) = makeRequest complete prompt st1
      in case response of
           Inl err \<Rightarrow> (Failed (Request err), st2)
         | Inr text \<Rightarrow> (Ok (analyze_output text), report progress (''Quick summary'', 1, 1, text) st2))"

text \<open>
  The calls \<^verbatim>\<open>progress("Processing files", i+1, len(files), "")\<close> of the file loop. The
  loop touches nothing else outside, so they are recorded after the chunks are
  computed.
\<close>

definition processing_files :: "bool \<Rightarrow> nat \<Rightarrow> pstate \<Rightarrow> pstate" where
  "processing_files progress n st =
     foldl (\<lambda>s i. report progress (''Processing files'', i + 1, n, []) s) st [0..<n]"

text \<open>
  The loop over the chunks: \<open>n\<close> is \<^verbatim>\<open>len(chunks)\<close>, \<open>i\<close> the index of the chunk at
  the head of the list.
\<close>

fun analyze_chunks ::
  "'e port \<Rightarrow> bool \<Rightarrow> nat \<Rightarrow> nat \<Rightarrow> string list \<Rightarrow> string list \<Rightarrow> pstate
     \<Rightarrow> ('e error + string list) \<times> pstate" where
  "analyze_chunks complete progress n i [] descriptions st = (Inr descriptions, st)"
| "analyze_chunks complete progress n i (chunk # chunks) descriptions st =
     (let st1 = report progress (''Analyzing chunks'', i + 1, n, []) st;
          prompt = chunk_prompt chunk;
          (response, st2) = makeRequest complete prompt st1
      in case response of
           Inl err \<Rightarrow> (Inl (AnalyzeChunk (i + 1) err), st2)
         | Inr text \<Rightarrow>
             analyze_chunks complete progress n (i + 1) chunks (descriptions @ [text])
               (report progress (''Analysis response'', i + 1, n, text) st2))"

text \<open>\<^verbatim>\<open>&AnalyzeOutput{Description: descriptions[0], ...}\<close>: indexing an empty slice panics.\<close>

definition first_description :: "string list \<Rightarrow> 'e result" where
  "first_description descriptions =
     (case descriptions of [] \<Rightarrow> Panic_index_out_of_range | d # _ \<Rightarrow> Ok (analyze_output d))"

definition combine ::
  "'e port \<Rightarrow> bool \<Rightarrow> string list \<Rightarrow> pstate \<Rightarrow> 'e result \<times> pstate" where
  "combine complete progress descriptions st =
     (if length descriptions > 1 then
        (let st1 = report progress (''Generating summary'', 0, 1, []) st;
             summaryPrompt = summary_prompt descriptions;
             (response, st2) = makeRequest complete summaryPrompt st1
         in case response of
              Inl err \<Rightarrow> (Failed (GenerateSummary err), st2)
            | Inr finalResponse \<Rightarrow>
                (first_description [finalResponse],
                 report progress (''Final summary'', 1, 1, finalResponse) st2))
      else (first_description descriptions, st))"

text \<open>
  The detailed path. \<open>None\<close> is "does not return", which the chunker alone could
  cause.
\<close>

definition Analyze_detailed ::
  "'e port \<Rightarrow> 'f AnalyzeInput \<Rightarrow> bool \<Rightarrow> pstate \<Rightarrow> ('e result \<times> pstate) option" where
  "Analyze_detailed complete input progress st =
     (let files = sort_Slice (collect_files (Files input))
      in case chunk_files 1500 files of
           None \<Rightarrow> None
         | Some chunks \<Rightarrow>
             (let st1 = processing_files progress (length files) st
              in case analyze_chunks complete progress (length chunks) 0 chunks [] st1 of
                   (Inl err, st2) \<Rightarrow> Some (Failed err, st2)
                 | (Inr descriptions, st2) \<Rightarrow> Some (combine complete progress descriptions st2)))"

definition Analyze ::
  "'e port \<Rightarrow> ('f \<Rightarrow> string) \<Rightarrow> 'f AnalyzeInput \<Rightarrow> bool \<Rightarrow> pstate \<Rightarrow> ('e result \<times> pstate) option" where
  "Analyze complete fmt_pct input progress st =
     (if \<not> IsDetailed input then Some (Analyze_quick complete fmt_pct input progress st)
      else Analyze_detailed complete input progress st)"

section \<open>The worked example\<close>

text \<open>
  The corpus of the worked example, in one visiting order, and the chunks the chunker
  turns out to give for it.
\<close>

definition example_corpus :: "(string \<times> string) list" where
  "example_corpus =
     [(''main.go'', replicate 10 (CHR ''a'')), (''util.go'', replicate 2000 (CHR ''b''))]"

definition example_chunks :: "string list" where
  "example_chunks =
     [''File: main.go'' @ [nl, nl] @ replicate 10 (CHR ''a'') @ [nl, nl],
      ''File: util.go'' @ [nl],
      replicate 1500 (CHR ''b''),
      replicate 500 (CHR ''b'')]"

section \<open>Properties of the chunker\<close>

lemma byte_windows_returns:
  assumes "0 < m"
  shows "\<exists>ws. (\<forall>chunks. byte_windows line m i chunks = Some (chunks @ ws))
           \<and> (\<forall>w \<in> set ws. length w \<le> m) \<and> concat ws = drop i line"
proof (induction "length line - i" arbitrary: i rule: less_induct)
  case less
  show ?case
  proof (cases "i < length line")
    case False
    then have "\<forall>chunks. byte_windows line m i chunks = Some (chunks @ [])"
      by (simp add: byte_windows.simps)
    with False show ?thesis by (intro exI[of _ "[]"]) simp
  next
    case True
    with assms have "length line - (i + m) < length line - i" by arith
    from less[OF this] obtain ws where
      ws: "\<forall>chunks. byte_windows line m (i + m) chunks = Some (chunks @ ws)"
          "\<forall>w \<in> set ws. length w \<le> m" "concat ws = drop (i + m) line"
      by blast
    let ?e = "if i + m > length line then length line else i + m"
    let ?w = "take (?e - i) (drop i line)"
    have step: "byte_windows line m i chunks = Some (chunks @ ?w # ws)" for chunks
      using True ws(1) by (subst byte_windows.simps) (simp add: Let_def)
    have len: "length ?w \<le> m" by auto
    have "?w @ drop (i + m) line = drop i line"
    proof (cases "i + m > length line")
      case True
      then show ?thesis by simp
    next
      case False
      then have "?w = take m (drop i line)" by simp
      moreover have "drop (i + m) line = drop m (drop i line)" by (simp add: add.commute)
      ultimately show ?thesis by (simp only: append_take_drop_id)
    qed
    with ws(3) have cat: "concat (?w # ws) = drop i line" by simp
    show ?thesis
      using step len ws(2) cat by (intro exI[of _ "?w # ws"]) simp
  qed
qed

lemma write_line_length:
  "length (write_line cur line) = (if cur = [] then length line else length cur + length line + 1)"
  by (simp add: write_line_def)

lemma split_lines_traced_bounded:
  assumes "0 < m"
  shows "length cur \<le> m \<Longrightarrow> \<forall>p \<in> set chunks. bounded_piece m p \<Longrightarrow>
         \<exists>out. split_lines_traced m lines chunks cur = Some out
             \<and> split_lines m lines (map fst chunks) cur = Some (map fst out)
             \<and> (\<forall>p \<in> set out. bounded_piece m p)"
proof (induction lines arbitrary: chunks cur)
  case Nil
  then show ?case by (simp add: bounded_piece_def)
next
  case (Cons line lines)
  let ?chunks1 = "if length cur > 0 then chunks @ [(cur, Buffer)] else chunks"
  let ?current1 = "if length cur > 0 then [] else cur"
  have c1: "\<forall>p \<in> set ?chunks1. bounded_piece m p"
    using Cons.prems by (simp add: bounded_piece_def)
  have m1: "map fst ?chunks1 = (if length cur > 0 then map fst chunks @ [cur] else map fst chunks)"
    by simp
  have e1: "?current1 = []" by simp
  show ?case
  proof (cases "length cur + length line + 1 > m")
    case False
    then have "length (write_line cur line) \<le> m"
      by (simp add: write_line_length)
    from Cons.IH[OF this Cons.prems(2)] False show ?thesis by simp
  next
    case over: True
    show ?thesis
    proof (cases "length line > m")
      case False
      then have "length (write_line ?current1 line) \<le> m"
        by (simp add: write_line_length)
      from Cons.IH[OF this c1] over False show ?thesis
        by (cases "cur = []") (simp_all add: Let_def)
    next
      case True
      from byte_windows_returns[OF assms, of line 0] obtain ws where
        ws: "\<forall>chunks. byte_windows line m 0 chunks = Some (chunks @ ws)"
            "\<forall>w \<in> set ws. length w \<le> m"
        by blast
      let ?chunks2 = "?chunks1 @ map (\<lambda>w. (w, Window line)) ws"
      have c2: "\<forall>p \<in> set ?chunks2. bounded_piece m p"
        using c1 ws(2) True by (auto simp: bounded_piece_def)
      have m2: "map fst ?chunks2 = map fst ?chunks1 @ ws"
        by (simp add: comp_def)
      have l1: "length ?current1 \<le> m" by simp
      from Cons.IH[OF l1 c2] obtain out where
        out: "split_lines_traced m lines ?chunks2 ?current1 = Some out"
             "split_lines m lines (map fst ?chunks2) ?current1 = Some (map fst out)"
             "\<forall>p \<in> set out. bounded_piece m p"
        by blast
      have t: "split_lines_traced m (line # lines) chunks cur = Some out"
        using over True ws(1)[rule_format, of "[]"] out(1)
        by (cases "cur = []") (simp_all add: Let_def)
      have u: "split_lines m (line # lines) (map fst chunks) cur = Some (map fst out)"
        using over True ws(1)[rule_format, of "map fst ?chunks1"] out(2)
        unfolding m2 by (cases "cur = []") (simp_all add: Let_def)
      from t u out(3) show ?thesis by blast
    qed
  qed
qed

lemma chunk_loop_traced_bounded:
  assumes "0 < m"
  shows "length cur \<le> m \<Longrightarrow> \<forall>p \<in> set chunks. bounded_piece m p \<Longrightarrow>
         \<exists>out. chunk_loop_traced m files chunks cur = Some out
             \<and> chunk_loop m files (map fst chunks) cur = Some (map fst out)
             \<and> (\<forall>p \<in> set out. bounded_piece m p)"
proof (induction files arbitrary: chunks cur)
  case Nil
  then show ?case by (simp add: bounded_piece_def)
next
  case (Cons f fs)
  let ?fc = "render f"
  let ?chunks1 = "if length cur > 0 then chunks @ [(cur, Buffer)] else chunks"
  let ?current1 = "if length cur > 0 then [] else cur"
  have c1: "\<forall>p \<in> set ?chunks1. bounded_piece m p"
    using Cons.prems by (simp add: bounded_piece_def)
  show ?case
  proof (cases "length cur + length ?fc > m")
    case False
    then have "length (cur @ ?fc) \<le> m" by simp
    from Cons.IH[OF this Cons.prems(2)] False show ?thesis by (simp add: Let_def)
  next
    case over: True
    show ?thesis
    proof (cases "length ?fc > m")
      case False
      then have "length (?current1 @ ?fc) \<le> m" by simp
      from Cons.IH[OF this c1] over False show ?thesis
        by (cases "cur = []") (simp_all add: Let_def)
    next
      case True
      from split_lines_traced_bounded[OF assms, of "[]" "[]" "Split_nl ?fc"] obtain parts where
        parts: "split_lines_traced m (Split_nl ?fc) [] [] = Some parts"
               "split_lines m (Split_nl ?fc) [] [] = Some (map fst parts)"
               "\<forall>p \<in> set parts. bounded_piece m p"
        by auto
      let ?chunks2 = "?chunks1 @ parts"
      have c2: "\<forall>p \<in> set ?chunks2. bounded_piece m p"
        using c1 parts(3) by auto
      have l1: "length ?current1 \<le> m" by simp
      from Cons.IH[OF l1 c2] obtain out where
        out: "chunk_loop_traced m fs ?chunks2 ?current1 = Some out"
             "chunk_loop m fs (map fst ?chunks2) ?current1 = Some (map fst out)"
             "\<forall>p \<in> set out. bounded_piece m p"
        by blast
      have t: "chunk_loop_traced m (f # fs) chunks cur = Some out"
        using over True parts(1) out(1)
        by (cases "cur = []") (simp_all add: Let_def)
      have u: "chunk_loop m (f # fs) (map fst chunks) cur = Some (map fst out)"
        using over True parts(2) out(2)
        by (cases "cur = []") (simp_all add: Let_def splitLongContent_def)
      from t u out(3) show ?thesis by blast
    qed
  qed
qed

text \<open>
  C1. For every list of files and every \<open>maxChunkSize > 0\<close> the chunker returns, every
  chunk flushed from a buffer has length at most \<open>maxChunkSize\<close>, and a chunk made by
  the byte-window fallback comes from a line longer than \<open>maxChunkSize\<close> (the fallback
  is never taken for a line of length at most \<open>maxChunkSize\<close>). The windows are within
  the bound as well.
\<close>

theorem chunks_within_maxChunkSize:
  assumes "0 < maxChunkSize"
  shows "\<exists>traced.
           chunk_files_traced maxChunkSize files = Some traced
         \<and> chunk_files maxChunkSize files = Some (map fst traced)
         \<and> (\<forall>(chunk, from) \<in> set traced.
               (from = Buffer \<longrightarrow> length chunk \<le> maxChunkSize)
             \<and> (\<forall>line. from = Window line \<longrightarrow>
                    maxChunkSize < length line \<and> length chunk \<le> maxChunkSize))"
proof -
  from chunk_loop_traced_bounded[OF assms, of "[]" "[]" files] obtain out where
    out: "chunk_loop_traced maxChunkSize files [] [] = Some out"
         "chunk_loop maxChunkSize files [] [] = Some (map fst out)"
         "\<forall>p \<in> set out. bounded_piece maxChunkSize p"
    by auto
  from out(3) have "\<forall>(chunk, from) \<in> set out.
      (from = Buffer \<longrightarrow> length chunk \<le> maxChunkSize)
    \<and> (\<forall>line. from = Window line \<longrightarrow>
           maxChunkSize < length line \<and> length chunk \<le> maxChunkSize)"
    by (auto simp: bounded_piece_def)
  with out(1,2) show ?thesis
    by (auto simp: chunk_files_traced_def chunk_files_def)
qed

theorem chunks_within_maxChunkSize_witness:
  "(0::nat) < 10
   \<and> (\<exists>traced.
           chunk_files_traced 10 [\<lparr>name = ''a'', content = ''0123456789abc''\<rparr>] = Some traced
         \<and> chunk_files 10 [\<lparr>name = ''a'', content = ''0123456789abc''\<rparr>] = Some (map fst traced)
         \<and> (\<forall>(chunk, from) \<in> set traced.
               (from = Buffer \<longrightarrow> length chunk \<le> 10)
             \<and> (\<forall>line. from = Window line \<longrightarrow> 10 < length line \<and> length chunk \<le> 10)))"
  using chunks_within_maxChunkSize [of 10 "[\<lparr>name = ''a'', content = ''0123456789abc''\<rparr>]"]
  by simp

section \<open>Properties of the file selection\<close>









lemma insert_file_sorted_id:
  "\<forall>g \<in> set gs. \<not> less_file g f \<Longrightarrow> insert_file f gs = f # gs"
  by (cases gs) auto

lemma sort_Slice_sorted_id:
  "sorted_wrt (\<lambda>a b. \<not> less_file b a) fs \<Longrightarrow> sort_Slice fs = fs"
  by (induction fs) (auto simp: insert_file_sorted_id)



section \<open>Properties of the language listing\<close>

lemma sort_mset_cong:
  fixes xs ys :: "string list"
  assumes "mset xs = mset ys"
  shows "sort xs = sort ys"
  by (rule properties_for_sort) (simp_all add: assms)

lemma Join_Cons: "Join (x # xs) sep = x @ concat (map (\<lambda>y. sep @ y) xs)"
  by (induction xs arbitrary: x) simp_all

lemma three_languages:
  "formatLanguages (\<lambda>n :: nat. if n = 0 then ''5.5'' else if n = 1 then ''70.0'' else ''24.5'')
             [(''Shell'', 0), (''Go'', 1), (''Python'', 2)] = ''Go (70.0%), Python (24.5%), Shell (5.5%)''"
  by (simp add: formatLanguages_def format_language_def less_char_def less_eq_char_def)

text \<open>
  C9. The language listing is the rendered entries \<open>lang (pct%)\<close> in ascending lexical
  order, the first as it is and every further one behind a comma and a space; two
  visiting orders of the same map give the same listing; and when \<open>%.1f\<close> prints the
  two percentages as \<open>70.0\<close> and \<open>30.0\<close>, the map of Go and Python gives
  \<open>Go (70.0%), Python (30.0%)\<close> in either visiting order.
\<close>

theorem formatLanguages_sorted_join:
  "(mset langs' = mset langs \<longrightarrow> formatLanguages fmt_pct langs' = formatLanguages fmt_pct langs)
   \<and> (\<exists>rendered.
          sorted rendered
        \<and> mset rendered = image_mset (\<lambda>(lang, pct). lang @ '' ('' @ fmt_pct pct @ ''%)'') (mset langs)
        \<and> formatLanguages fmt_pct langs
            = (case rendered of [] \<Rightarrow> [] | x # xs \<Rightarrow> x @ concat (map (\<lambda>y. '', '' @ y) xs)))
   \<and> (fmt_pct go = ''70.0'' \<and> fmt_pct python = ''30.0'' \<longrightarrow>
          formatLanguages fmt_pct [(''Go'', go), (''Python'', python)] = ''Go (70.0%), Python (30.0%)''
        \<and> formatLanguages fmt_pct [(''Python'', python), (''Go'', go)] = ''Go (70.0%), Python (30.0%)'')"
proof (intro conjI impI)
  assume "mset langs' = mset langs"
  then have "mset (map (format_language fmt_pct) langs') = mset (map (format_language fmt_pct) langs)"
    by (metis mset_map)
  then have "sort (map (format_language fmt_pct) langs') = sort (map (format_language fmt_pct) langs)"
    by (rule sort_mset_cong)
  then show "formatLanguages fmt_pct langs' = formatLanguages fmt_pct langs"
    unfolding formatLanguages_def by (rule arg_cong)
next
  have f: "format_language fmt_pct = (\<lambda>(lang, pct). lang @ '' ('' @ fmt_pct pct @ ''%)'')"
    by (auto simp: format_language_def fun_eq_iff)
  have j: "Join rendered sep = (case rendered of [] \<Rightarrow> [] | x # xs \<Rightarrow> x @ concat (map (\<lambda>y. sep @ y) xs))"
    for rendered sep
    by (cases rendered) (simp_all only: Join.simps(1) Join_Cons list.case)
  show "\<exists>rendered. sorted rendered
        \<and> mset rendered = image_mset (\<lambda>(lang, pct). lang @ '' ('' @ fmt_pct pct @ ''%)'') (mset langs)
        \<and> formatLanguages fmt_pct langs
            = (case rendered of [] \<Rightarrow> [] | x # xs \<Rightarrow> x @ concat (map (\<lambda>y. '', '' @ y) xs))"
    by (rule exI[of _ "sort (map (format_language fmt_pct) langs)"])
       (simp add: formatLanguages_def f j)
next
  assume a: "fmt_pct go = ''70.0'' \<and> fmt_pct python = ''30.0''"
  have lt: "''Go (70.0%)'' < ''Python (30.0%)''"
    by (simp add: less_char_def)
  from a lt show "formatLanguages fmt_pct [(''Go'', go), (''Python'', python)] = ''Go (70.0%), Python (30.0%)''"
    by (simp add: formatLanguages_def format_language_def insort_key.simps less_le_not_le)
  from a lt show "formatLanguages fmt_pct [(''Python'', python), (''Go'', go)] = ''Go (70.0%), Python (30.0%)''"
    by (simp add: formatLanguages_def format_language_def less_le_not_le)
qed

theorem formatLanguages_sorted_join_witness:
  "mset [(''Python'', False), (''Go'', True)] = mset [(''Go'', True), (''Python'', False)]
   \<and> (if True then ''70.0'' else ''30.0'') = ''70.0''
   \<and> (if False then ''70.0'' else ''30.0'') = ''30.0''
   \<and> formatLanguages (\<lambda>b. if b then ''70.0'' else ''30.0'') [(''Python'', False), (''Go'', True)]
       = formatLanguages (\<lambda>b. if b then ''70.0'' else ''30.0'') [(''Go'', True), (''Python'', False)]
   \<and> formatLanguages (\<lambda>b. if b then ''70.0'' else ''30.0'') [(''Python'', False), (''Go'', True)]
       = ''Go (70.0%), Python (30.0%)''
   \<and> formatLanguages (\<lambda>n :: nat. if n = 0 then ''5.5'' else if n = 1 then ''70.0'' else ''24.5'')
        [(''Shell'', 0), (''Go'', 1), (''Python'', 2)] = ''Go (70.0%), Python (24.5%), Shell (5.5%)''
   \<and> (\<exists>rendered. sorted rendered
        \<and> mset rendered = mset [''Shell (5.5%)'', ''Go (70.0%)'', ''Python (24.5%)'']
        \<and> formatLanguages (\<lambda>n :: nat. if n = 0 then ''5.5'' else if n = 1 then ''70.0'' else ''24.5'')
             [(''Shell'', 0), (''Go'', 1), (''Python'', 2)]
            = (case rendered of [] \<Rightarrow> [] | x # xs \<Rightarrow> x @ concat (map (\<lambda>y. '', '' @ y) xs)))"
  using formatLanguages_sorted_join [of "[(''Python'', False), (''Go'', True)]"
      "[(''Go'', True), (''Python'', False)]" "\<lambda>b. if b then ''70.0'' else ''30.0''" True False]
    formatLanguages_sorted_join [of "[]" "[(''Shell'', 0), (''Go'', 1), (''Python'', 2)]"
      "\<lambda>n :: nat. if n = 0 then ''5.5'' else if n = 1 then ''70.0'' else ''24.5''" 0 0]
    three_languages
  by simp

section \<open>Properties of Analyze\<close>

lemma processing_files_calls [simp]: "calls (processing_files progress n st) = calls st"
proof -
  have "calls (foldl (\<lambda>s i. report progress (''Processing files'', i + 1, n, []) s) st is) = calls st" for "is"
    by (induction "is" arbitrary: st) (simp_all add: report_def)
  then show ?thesis by (simp add: processing_files_def)
qed

lemma report_calls [simp]: "calls (report progress ev st) = calls st"
  by (simp add: report_def)

text \<open>
  C10. In detailed mode with an empty \<open>Files\<close> map there is no chunk and no description,
  so \<^verbatim>\<open>descriptions[0]\<close> indexes an empty slice: the call panics, having made no request
  and having returned no error.
\<close>

theorem detailed_empty_files_panics:
  assumes "IsDetailed input" and "Files input = []"
  shows "Analyze complete fmt_pct input progress st = Some (Panic_index_out_of_range, st)"
  using assms
  by (simp add: Analyze_def Analyze_detailed_def collect_files_def chunk_files_def
      processing_files_def combine_def first_description_def)

theorem detailed_empty_files_panics_witness:
  "IsDetailed \<lparr>Files = [], Languages = [(''Go'', ())], ContextSize = 0, DirStructure = ''.'',
      IsDetailed = True\<rparr>
   \<and> Files \<lparr>Files = [], Languages = [(''Go'', ())], ContextSize = 0, DirStructure = ''.'',
      IsDetailed = True\<rparr> = []
   \<and> Analyze (\<lambda>h p. Inr ''ok'' :: unit + string) (\<lambda>u. ''100.0'')
        \<lparr>Files = [], Languages = [(''Go'', ())], ContextSize = 0, DirStructure = ''.'',
         IsDetailed = True\<rparr> True \<lparr>calls = [], events = []\<rparr>
      = Some (Panic_index_out_of_range, \<lparr>calls = [], events = []\<rparr>)"
  using detailed_empty_files_panics [of
      "\<lparr>Files = [], Languages = [(''Go'', ())], ContextSize = 0, DirStructure = ''.'',
        IsDetailed = True\<rparr>"
      "\<lambda>h p. Inr ''ok'' :: unit + string" "\<lambda>u. ''100.0''" True "\<lparr>calls = [], events = []\<rparr>"]
  by simp

text \<open>
  C8, as amended. In quick mode \<open>Analyze\<close> makes exactly one request, with or without a
  progress callback. When the request succeeds the description is its text and, if a
  callback was given, the callback has been called exactly twice, with
  \<open>("Preparing quick summary", 0, 1, "")\<close> and then \<open>("Quick summary", 1, 1, text)\<close>;
  without a callback nothing is reported. When the request fails the error comes back
  as it is.
\<close>

theorem quick_mode_one_call:
  assumes "\<not> IsDetailed input"
  shows "(\<forall>response. complete (calls st) (quick_prompt fmt_pct input) = Inr response \<longrightarrow>
            (\<exists>out st'. Analyze complete fmt_pct input progress st = Some (Ok out, st')
               \<and> Description out = response
               \<and> calls st' = calls st @ [quick_prompt fmt_pct input]
               \<and> events st' = events st @
                    (if progress then [(''Preparing quick summary'', 0, 1, ''''),
                                       (''Quick summary'', 1, 1, response)]
                     else [])))
       \<and> (\<forall>err. complete (calls st) (quick_prompt fmt_pct input) = Inl err \<longrightarrow>
            (\<exists>st'. Analyze complete fmt_pct input progress st = Some (Failed (Request err), st')
               \<and> calls st' = calls st @ [quick_prompt fmt_pct input]
               \<and> events st' = events st @
                    (if progress then [(''Preparing quick summary'', 0, 1, '''')] else [])))"
  using assms
  by (simp add: Analyze_def Analyze_quick_def makeRequest_def report_def Let_def
      analyze_output_def)

theorem quick_mode_one_call_witness:
  "\<not> IsDetailed \<lparr>Files = [], Languages = [(''Go'', True)], ContextSize = 0,
        DirStructure = ''cmd'', IsDetailed = False\<rparr>
   \<and> (\<exists>out st'.
         Analyze (\<lambda>h p. if h = [] then Inr ''a Go tool'' else Inl ''down'')
           (\<lambda>b. if b then ''100.0'' else ''0.0'')
           \<lparr>Files = [], Languages = [(''Go'', True)], ContextSize = 0, DirStructure = ''cmd'',
            IsDetailed = False\<rparr> True \<lparr>calls = [], events = []\<rparr>
           = Some (Ok out, st')
       \<and> Description out = ''a Go tool''
       \<and> calls st' = [quick_prompt (\<lambda>b. if b then ''100.0'' else ''0.0'')
                  \<lparr>Files = [], Languages = [(''Go'', True)], ContextSize = 0,
                   DirStructure = ''cmd'', IsDetailed = False\<rparr>]
       \<and> events st' = [(''Preparing quick summary'', 0, 1, ''''),
                        (''Quick summary'', 1, 1, ''a Go tool'')])
   \<and> (\<exists>st'.
         Analyze (\<lambda>h p. if h = [] then Inl ''down'' else Inr ''a Go tool'')
           (\<lambda>b. if b then ''100.0'' else ''0.0'')
           \<lparr>Files = [], Languages = [(''Go'', True)], ContextSize = 0, DirStructure = ''cmd'',
            IsDetailed = False\<rparr> False \<lparr>calls = [], events = []\<rparr>
           = Some (Failed (Request ''down''), st')
       \<and> calls st' = [quick_prompt (\<lambda>b. if b then ''100.0'' else ''0.0'')
                  \<lparr>Files = [], Languages = [(''Go'', True)], ContextSize = 0,
                   DirStructure = ''cmd'', IsDetailed = False\<rparr>]
       \<and> events st' = [])"
  using quick_mode_one_call [where input =
      "\<lparr>Files = [], Languages = [(''Go'', True)], ContextSize = 0, DirStructure = ''cmd'',
        IsDetailed = False\<rparr>"
      and complete = "\<lambda>h p. if h = [] then Inr ''a Go tool'' else Inl ''down''"
      and st = "\<lparr>calls = [], events = []\<rparr>" and fmt_pct = "\<lambda>b. if b then ''100.0'' else ''0.0''"
      and progress = True]
    quick_mode_one_call [where input =
      "\<lparr>Files = [], Languages = [(''Go'', True)], ContextSize = 0, DirStructure = ''cmd'',
        IsDetailed = False\<rparr>"
      and complete = "\<lambda>h p. if h = [] then Inl ''down'' else Inr ''a Go tool''"
      and st = "\<lparr>calls = [], events = []\<rparr>" and fmt_pct = "\<lambda>b. if b then ''100.0'' else ''0.0''"
      and progress = False]
  by simp

text \<open>
  C8 as stated fails without a callback: the request succeeds and no progress is
  reported, since every report stands behind \<open>if progress != nil\<close>.
\<close>

theorem quick_mode_nil_callback_counterexample:
  "map_option (events \<circ> snd)
     (Analyze (\<lambda>h p. Inr ''a Go tool'' :: unit + string) (\<lambda>b. if b then ''100.0'' else ''0.0'')
        \<lparr>Files = [], Languages = [(''Go'', True)], ContextSize = 0, DirStructure = ''cmd'',
         IsDetailed = False\<rparr> False \<lparr>calls = [], events = []\<rparr>)
     = Some []
   \<and> map_option (events \<circ> snd)
     (Analyze (\<lambda>h p. Inr ''a Go tool'' :: unit + string) (\<lambda>b. if b then ''100.0'' else ''0.0'')
        \<lparr>Files = [], Languages = [(''Go'', True)], ContextSize = 0, DirStructure = ''cmd'',
         IsDetailed = False\<rparr> False \<lparr>calls = [], events = []\<rparr>)
     \<noteq> Some [(''Preparing quick summary'', 0, 1, ''''), (''Quick summary'', 1, 1, ''a Go tool'')]"
  by (simp add: Analyze_def Analyze_quick_def makeRequest_def report_def Let_def)

section \<open>What the chunks add up to\<close>

subsection \<open>Lines\<close>

lemma Split_nl_not_Nil [simp]: "Split_nl s \<noteq> []"
  by (cases s) auto

lemma Split_nl_append_nl: "Split_nl (xs @ nl # ys) = Split_nl xs @ Split_nl ys"
  by (induction xs) auto

lemma Split_nl_no_nl: "nl \<notin> set xs \<Longrightarrow> Split_nl xs = [xs]"
  by (induction xs) auto

lemma Split_nl_render:
  "Split_nl (render f) = Split_nl (''File: '' @ name f) @ [[]] @ Split_nl (content f) @ [[], []]"
proof -
  have "render f = (''File: '' @ name f) @ nl # ([] @ nl # (content f @ nl # ([] @ nl # [])))"
    by (simp add: render_def)
  then show ?thesis
    by (simp only: Split_nl_append_nl Split_nl.simps(1)) simp
qed

lemma hd_Split_nl_in: "hd (Split_nl s) \<in> set (Split_nl s)"
  by (simp add: hd_in_set)

lemma Split_nl_nl_free: "l \<in> set (Split_nl s) \<Longrightarrow> nl \<notin> set l"
proof (induction s arbitrary: l)
  case Nil
  then show ?case by simp
next
  case (Cons c cs)
  show ?case
  proof (cases "c = nl")
    case True
    with Cons show ?thesis by auto
  next
    case False
    from Cons.prems False have "l = c # hd (Split_nl cs) \<or> l \<in> set (tl (Split_nl cs))" by simp
    then show ?thesis
    proof
      assume "l = c # hd (Split_nl cs)"
      with False Cons.IH[OF hd_Split_nl_in] show ?thesis by simp
    next
      assume "l \<in> set (tl (Split_nl cs))"
      then have "l \<in> set (Split_nl cs)" by (rule list.set_sel(2)[rotated]) simp
      then show ?thesis by (rule Cons.IH)
    qed
  qed
qed

lemma concat_Split_nl: "concat (Split_nl s) = filter (\<lambda>c. c \<noteq> nl) s"
proof (induction s)
  case Nil
  then show ?case by simp
next
  case (Cons c cs)
  have "hd (Split_nl cs) # tl (Split_nl cs) = Split_nl cs" by simp
  then have "hd (Split_nl cs) @ concat (tl (Split_nl cs)) = concat (Split_nl cs)"
    by (metis concat.simps(2))
  with Cons show ?case by simp
qed

lemma filter_nl_free: "nl \<notin> set l \<Longrightarrow> filter (\<lambda>c. c \<noteq> nl) l = l"
  by (induction l) auto

lemma filter_write_line:
  "nl \<notin> set line \<Longrightarrow>
   filter (\<lambda>c. c \<noteq> nl) (write_line cur line) = filter (\<lambda>c. c \<noteq> nl) cur @ line"
  by (simp add: write_line_def filter_nl_free)

subsection \<open>The chunks of a file list, newlines aside\<close>

text \<open>
  \<^verbatim>\<open>splitLongContent\<close> cuts at newlines and puts a newline back only between two lines
  of one buffer, so the newline at a cut is gone; every other character is kept, in
  order.
\<close>

lemma split_lines_concat:
  assumes "0 < m"
  shows "\<forall>l \<in> set lines. nl \<notin> set l \<Longrightarrow> split_lines m lines chunks cur = Some out \<Longrightarrow>
         filter (\<lambda>c. c \<noteq> nl) (concat out)
           = filter (\<lambda>c. c \<noteq> nl) (concat chunks) @ filter (\<lambda>c. c \<noteq> nl) cur @ concat lines"
proof (induction lines arbitrary: chunks cur)
  case Nil
  then show ?case by (auto split: if_splits)
next
  case (Cons line lines)
  have free: "nl \<notin> set line" and rest: "\<forall>l \<in> set lines. nl \<notin> set l"
    using Cons.prems(1) by simp_all
  let ?chunks1 = "if length cur > 0 then chunks @ [cur] else chunks"
  let ?current1 = "if length cur > 0 then [] else cur"
  show ?case
  proof (cases "length cur + length line + 1 > m")
    case False
    with Cons.prems(2) have "split_lines m lines chunks (write_line cur line) = Some out"
      by simp
    from Cons.IH[OF rest this] free show ?thesis
      by (simp add: filter_write_line)
  next
    case over: True
    show ?thesis
    proof (cases "length line > m")
      case False
      with over Cons.prems(2) have
        "split_lines m lines ?chunks1 (write_line ?current1 line) = Some out"
        by (simp add: Let_def)
      from Cons.IH[OF rest this] free show ?thesis
        by (cases "cur = []") (simp_all add: filter_write_line)
    next
      case True
      from byte_windows_returns[OF assms, of line 0] obtain ws where
        ws: "\<forall>chunks. byte_windows line m 0 chunks = Some (chunks @ ws)" "concat ws = line"
        by auto
      with over True Cons.prems(2) have
        "split_lines m lines (?chunks1 @ ws) ?current1 = Some out"
        by (simp add: Let_def)
      from Cons.IH[OF rest this] ws(2) free show ?thesis
        by (cases "cur = []") (simp_all add: filter_nl_free)
    qed
  qed
qed

lemma splitLongContent_concat:
  assumes "0 < m" and "splitLongContent s m = Some parts"
  shows "filter (\<lambda>c. c \<noteq> nl) (concat parts) = filter (\<lambda>c. c \<noteq> nl) s"
proof -
  have "\<forall>l \<in> set (Split_nl s). nl \<notin> set l" by (simp add: Split_nl_nl_free)
  from split_lines_concat[OF assms(1) this, of "[]" "[]" parts] assms(2)
  show ?thesis by (simp add: splitLongContent_def concat_Split_nl)
qed

lemma chunk_loop_concat:
  assumes "0 < m"
  shows "chunk_loop m fs chunks cur = Some out \<Longrightarrow>
         filter (\<lambda>c. c \<noteq> nl) (concat out)
           = filter (\<lambda>c. c \<noteq> nl) (concat chunks) @ filter (\<lambda>c. c \<noteq> nl) cur
             @ filter (\<lambda>c. c \<noteq> nl) (concat (map render fs))"
proof (induction fs arbitrary: chunks cur)
  case Nil
  then show ?case by (auto split: if_splits)
next
  case (Cons f fs)
  let ?fc = "render f"
  let ?chunks1 = "if length cur > 0 then chunks @ [cur] else chunks"
  let ?current1 = "if length cur > 0 then [] else cur"
  show ?case
  proof (cases "length cur + length ?fc > m")
    case False
    with Cons.prems have "chunk_loop m fs chunks (cur @ ?fc) = Some out"
      by (simp add: Let_def)
    from Cons.IH[OF this] show ?thesis by simp
  next
    case over: True
    show ?thesis
    proof (cases "length ?fc > m")
      case False
      with over Cons.prems have "chunk_loop m fs ?chunks1 (?current1 @ ?fc) = Some out"
        by (simp add: Let_def)
      from Cons.IH[OF this] show ?thesis
        by (cases "cur = []") simp_all
    next
      case True
      with over Cons.prems obtain parts where
        parts: "splitLongContent ?fc m = Some parts"
               "chunk_loop m fs (?chunks1 @ parts) ?current1 = Some out"
        by (auto simp: Let_def split: option.splits)
      from Cons.IH[OF parts(2)] splitLongContent_concat[OF assms parts(1)] show ?thesis
        by (cases "cur = []") simp_all
    qed
  qed
qed

lemma chunk_loop_exact:
  "\<forall>f \<in> set fs. length (render f) \<le> m \<Longrightarrow> chunk_loop m fs chunks cur = Some out \<Longrightarrow>
   concat out = concat chunks @ cur @ concat (map render fs)"
proof (induction fs arbitrary: chunks cur)
  case Nil
  then show ?case by (auto split: if_splits)
next
  case (Cons f fs)
  have small: "length (render f) \<le> m" and rest: "\<forall>f \<in> set fs. length (render f) \<le> m"
    using Cons.prems(1) by simp_all
  show ?case
  proof (cases "length cur + length (render f) > m")
    case False
    with Cons.prems(2) have "chunk_loop m fs chunks (cur @ render f) = Some out"
      by (simp add: Let_def)
    from Cons.IH[OF rest this] show ?thesis by simp
  next
    case True
    with small Cons.prems(2) have
      "chunk_loop m fs (if length cur > 0 then chunks @ [cur] else chunks)
         ((if length cur > 0 then [] else cur) @ render f) = Some out"
      by (simp add: Let_def)
    from Cons.IH[OF rest this] show ?thesis by (cases "cur = []") simp_all
  qed
qed

lemma single_small_file_one_chunk:
  "length (render f) \<le> m \<Longrightarrow> chunk_files m [f] = Some [render f]"
  by (simp add: chunk_files_def Let_def) (simp add: render_def)

subsection \<open>The corpus of the worked example\<close>

lemma byte_windows_example:
  "byte_windows (replicate 2000 c) 1500 0 chunks = Some (chunks @ [replicate 1500 c, replicate 500 c])"
  apply (subst byte_windows.simps, simp add: Let_def)
  apply (subst byte_windows.simps, simp add: Let_def)
  apply (subst byte_windows.simps, simp add: Let_def)
  done

lemma example_sorted:
  "sort_Slice (collect_files example_corpus)
     = [\<lparr>name = ''main.go'', content = replicate 10 (CHR ''a'')\<rparr>,
        \<lparr>name = ''util.go'', content = replicate 2000 (CHR ''b'')\<rparr>]"
  "sort_Slice (collect_files (rev example_corpus))
     = [\<lparr>name = ''main.go'', content = replicate 10 (CHR ''a'')\<rparr>,
        \<lparr>name = ''util.go'', content = replicate 2000 (CHR ''b'')\<rparr>]"
  by (simp_all add: example_corpus_def collect_files_def less_file_def isMain_def)

lemma example_split:
  "splitLongContent (render \<lparr>name = ''util.go'', content = replicate 2000 (CHR ''b'')\<rparr>) 1500
     = Some [''File: util.go'' @ [nl], replicate 1500 (CHR ''b''), replicate 500 (CHR ''b'')]"
proof -
  have "Split_nl (render \<lparr>name = ''util.go'', content = replicate 2000 (CHR ''b'')\<rparr>)
          = [''File: util.go'', [], replicate 2000 (CHR ''b''), [], []]"
    by (simp add: Split_nl_render Split_nl_no_nl)
  then show ?thesis
    by (simp add: splitLongContent_def write_line_def byte_windows_example)
qed

lemma example_chunk_files:
  "chunk_files 1500 [\<lparr>name = ''main.go'', content = replicate 10 (CHR ''a'')\<rparr>,
                     \<lparr>name = ''util.go'', content = replicate 2000 (CHR ''b'')\<rparr>]
     = Some example_chunks"
proof -
  have l1: "length (render \<lparr>name = ''main.go'', content = replicate 10 (CHR ''a'')\<rparr>) = 27"
    by (simp add: render_def)
  have l2: "length (render \<lparr>name = ''util.go'', content = replicate 2000 (CHR ''b'')\<rparr>) = 2017"
    by (simp add: render_def)
  have r1: "render \<lparr>name = ''main.go'', content = replicate 10 (CHR ''a'')\<rparr> \<noteq> []"
    by (simp add: render_def)
  show ?thesis
    unfolding chunk_files_def
    by (simp add: Let_def l1 l2 r1 example_split) (simp add: render_def example_chunks_def)
qed

lemma length_example_chunks: "length example_chunks = 4"
  by (simp add: example_chunks_def)

subsection \<open>Where the chunks lie in the renderings\<close>

text \<open>
  A list of pairs \<open>(gap, chunk)\<close> followed by a tail stands for the string in which
  every chunk comes behind its gap. The chunks of \<open>splitLongContent\<close> lie in the
  content in this way, one behind the other, with gaps and tail made of newlines only.
\<close>

lemma Join_Split_nl: "Join (Split_nl s) [nl] = s"
proof (induction s)
  case Nil
  then show ?case by simp
next
  case (Cons c cs)
  obtain h t where ht: "Split_nl cs = h # t"
    by (cases "Split_nl cs") simp_all
  with Cons have "h @ concat (map (\<lambda>y. [nl] @ y) t) = cs"
    by (simp add: Join_Cons)
  with ht show ?case by (simp add: Join_Cons)
qed

lemma split_lines_tiles:
  assumes "0 < m"
  shows "split_lines m lines chunks cur = Some out \<Longrightarrow> set p \<subseteq> {nl} \<Longrightarrow> (\<not> b \<longrightarrow> cur = []) \<Longrightarrow>
    \<exists>pairs tail. out = chunks @ map snd pairs
      \<and> (\<forall>q \<in> set pairs. set (fst q) \<subseteq> {nl}) \<and> set tail \<subseteq> {nl}
      \<and> p @ cur @ (if b then concat (map (\<lambda>l. nl # l) lines) else Join lines [nl])
          = concat (map (\<lambda>q. fst q @ snd q) pairs) @ tail"
proof (induction lines arbitrary: chunks cur p b out)
  case Nil
  show ?case
  proof (cases "cur = []")
    case True
    with Nil show ?thesis
      by (intro exI[of _ "[]"] exI[of _ p]) simp
  next
    case False
    with Nil show ?thesis
      by (intro exI[of _ "[(p, cur)]"] exI[of _ "[]"]) auto
  qed
next
  case (Cons line lines)
  let ?R = "concat (map (\<lambda>l. nl # l) lines)"
  let ?sep = "if b then [nl] else []"
  have whole: "(if b then concat (map (\<lambda>l. nl # l) (line # lines)) else Join (line # lines) [nl])
      = ?sep @ line @ ?R"
    by (simp add: Join_Cons)
  have sep: "set ?sep \<subseteq> {nl}" by auto
  have b: "cur \<noteq> [] \<Longrightarrow> b" using Cons.prems(3) by auto
  show ?case
  proof (cases "length cur + length line + 1 > m \<and> length line > m")
    case long: True
    from byte_windows_returns[OF assms, of line 0] obtain ws where
      ws: "\<forall>chunks. byte_windows line m 0 chunks = Some (chunks @ ws)" "concat ws = line"
      by auto
    let ?chunks1 = "if cur \<noteq> [] then chunks @ [cur] else chunks"
    from long ws(1) Cons.prems(1) have run: "split_lines m lines (?chunks1 @ ws) [] = Some out"
      by (cases "cur = []") (simp_all add: Let_def)
    from Cons.IH[OF run, of "[]" True] obtain pairs tail where
      ih: "out = (?chunks1 @ ws) @ map snd pairs" "\<forall>q \<in> set pairs. set (fst q) \<subseteq> {nl}"
          "set tail \<subseteq> {nl}" "?R = concat (map (\<lambda>q. fst q @ snd q) pairs) @ tail"
      by auto
    from long have "line \<noteq> []" by auto
    with ws(2) obtain w ws' where w: "ws = w # ws'" by (cases ws) auto
    show ?thesis
    proof (cases "cur = []")
      case True
      let ?pairs = "(p @ ?sep, w) # map (\<lambda>w. ([], w)) ws' @ pairs"
      have "out = chunks @ map snd ?pairs"
        using ih(1) True w by (simp add: comp_def)
      moreover have "\<forall>q \<in> set ?pairs. set (fst q) \<subseteq> {nl}"
        using ih(2) Cons.prems(2) by auto
      moreover have "p @ cur @ ?sep @ line @ ?R = concat (map (\<lambda>q. fst q @ snd q) ?pairs) @ tail"
        using True ih(4) ws(2) w by (auto simp: comp_def)
      ultimately show ?thesis using ih(3) unfolding whole by blast
    next
      case False
      let ?pairs = "(p, cur) # ([nl], w) # map (\<lambda>w. ([], w)) ws' @ pairs"
      have "out = chunks @ map snd ?pairs"
        using ih(1) False w by (simp add: comp_def)
      moreover have "\<forall>q \<in> set ?pairs. set (fst q) \<subseteq> {nl}"
        using ih(2) Cons.prems(2) by auto
      moreover have "p @ cur @ ?sep @ line @ ?R = concat (map (\<lambda>q. fst q @ snd q) ?pairs) @ tail"
        using False b ih(4) ws(2) w by (auto simp: comp_def)
      ultimately show ?thesis using ih(3) unfolding whole by blast
    qed
  next
    case short: False
    show ?thesis
    proof (cases "cur \<noteq> [] \<and> length cur + length line + 1 > m")
      case flush: True
      with short Cons.prems(1) have run: "split_lines m lines (chunks @ [cur]) line = Some out"
        by (simp add: Let_def write_line_def)
      from Cons.IH[OF run, of "[nl]" True] obtain pairs tail where
        ih: "out = (chunks @ [cur]) @ map snd pairs" "\<forall>q \<in> set pairs. set (fst q) \<subseteq> {nl}"
            "set tail \<subseteq> {nl}" "[nl] @ line @ ?R = concat (map (\<lambda>q. fst q @ snd q) pairs) @ tail"
        by auto
      let ?pairs = "(p, cur) # pairs"
      have "out = chunks @ map snd ?pairs" using ih(1) by simp
      moreover have "\<forall>q \<in> set ?pairs. set (fst q) \<subseteq> {nl}"
        using ih(2) Cons.prems(2) by auto
      moreover have "p @ cur @ ?sep @ line @ ?R = concat (map (\<lambda>q. fst q @ snd q) ?pairs) @ tail"
        using flush b ih(4) by simp
      ultimately show ?thesis using ih(3) unfolding whole by blast
    next
      case keep: False
      show ?thesis
      proof (cases "cur = []")
        case True
        with short Cons.prems(1) have run: "split_lines m lines chunks line = Some out"
          by (simp add: Let_def write_line_def split: if_splits)
        have ps: "set (p @ ?sep) \<subseteq> {nl}" using Cons.prems(2) by auto
        from Cons.IH[OF run ps, of True] obtain pairs tail where
          ih: "out = chunks @ map snd pairs" "\<forall>q \<in> set pairs. set (fst q) \<subseteq> {nl}"
              "set tail \<subseteq> {nl}"
              "(p @ ?sep) @ line @ ?R = concat (map (\<lambda>q. fst q @ snd q) pairs) @ tail"
          by auto
        from ih(4) True have
          "p @ cur @ ?sep @ line @ ?R = concat (map (\<lambda>q. fst q @ snd q) pairs) @ tail"
          by simp
        with ih(1,2,3) show ?thesis unfolding whole by blast
      next
        case False
        with keep short Cons.prems(1) have
          run: "split_lines m lines chunks (cur @ [nl] @ line) = Some out"
          by (simp add: Let_def write_line_def)
        from Cons.IH[OF run Cons.prems(2), of True] obtain pairs tail where
          ih: "out = chunks @ map snd pairs" "\<forall>q \<in> set pairs. set (fst q) \<subseteq> {nl}"
              "set tail \<subseteq> {nl}"
              "p @ (cur @ [nl] @ line) @ ?R = concat (map (\<lambda>q. fst q @ snd q) pairs) @ tail"
          by auto
        from ih(4) False b have
          "p @ cur @ ?sep @ line @ ?R = concat (map (\<lambda>q. fst q @ snd q) pairs) @ tail"
          by simp
        with ih(1,2,3) show ?thesis unfolding whole by blast
      qed
    qed
  qed
qed

lemma splitLongContent_tiles:
  assumes "0 < m" and "splitLongContent s m = Some parts"
  shows "\<exists>pairs tail. parts = map snd pairs
      \<and> (\<forall>q \<in> set pairs. set (fst q) \<subseteq> {nl}) \<and> set tail \<subseteq> {nl}
      \<and> s = concat (map (\<lambda>q. fst q @ snd q) pairs) @ tail"
  using split_lines_tiles[OF assms(1), of "Split_nl s" "[]" "[]" parts "[]" False] assms(2)
  by (simp add: splitLongContent_def Join_Split_nl)

lemma render_not_Nil [simp]: "render f \<noteq> []"
  by (simp add: render_def)

lemma concat_render_Nil [simp]: "concat (map render fs) = [] \<longleftrightarrow> fs = []"
  by (cases fs) simp_all

lemma chunk_loop_blocks:
  assumes "0 < m"
  shows "chunk_loop m fs chunks (concat (map render pend)) = Some out \<Longrightarrow>
         \<forall>f \<in> set pend. length (render f) \<le> m \<Longrightarrow>
         \<exists>blocks. out = chunks @ concat (map snd blocks)
           \<and> concat (map fst blocks) = pend @ fs
           \<and> (\<forall>blk \<in> set blocks.
                 (fst blk \<noteq> [] \<and> (\<forall>f \<in> set (fst blk). length (render f) \<le> m)
                    \<and> snd blk = [concat (map render (fst blk))])
               \<or> (\<exists>f pairs tail. fst blk = [f] \<and> m < length (render f)
                    \<and> snd blk = map snd pairs
                    \<and> (\<forall>q \<in> set pairs. set (fst q) \<subseteq> {nl}) \<and> set tail \<subseteq> {nl}
                    \<and> render f = concat (map (\<lambda>q. fst q @ snd q) pairs) @ tail))"
proof (induction fs arbitrary: chunks pend out)
  case Nil
  show ?case
  proof (cases "pend = []")
    case True
    with Nil show ?thesis by (intro exI[of _ "[]"]) simp
  next
    case False
    with Nil show ?thesis
      by (intro exI[of _ "[(pend, [concat (map render pend)])]"]) simp
  qed
next
  case (Cons f fs)
  let ?cur = "concat (map render pend)"
  let ?flushed = "if pend = [] then [] else [(pend, [?cur])]"
  have flushed_ok: "\<forall>blk \<in> set ?flushed.
      (fst blk \<noteq> [] \<and> (\<forall>f \<in> set (fst blk). length (render f) \<le> m)
         \<and> snd blk = [concat (map render (fst blk))])"
    using Cons.prems(2) by simp
  show ?case
  proof (cases "length ?cur + length (render f) > m")
    case False
    then have small: "length (render f) \<le> m" by simp
    from False Cons.prems(1) have
      "chunk_loop m fs chunks (concat (map render (pend @ [f]))) = Some out"
      by (simp add: Let_def)
    moreover have "\<forall>g \<in> set (pend @ [f]). length (render g) \<le> m"
      using Cons.prems(2) small by simp
    ultimately obtain blocks where
      "out = chunks @ concat (map snd blocks)" "concat (map fst blocks) = (pend @ [f]) @ fs"
      "\<forall>blk \<in> set blocks.
                 (fst blk \<noteq> [] \<and> (\<forall>f \<in> set (fst blk). length (render f) \<le> m)
                    \<and> snd blk = [concat (map render (fst blk))])
               \<or> (\<exists>f pairs tail. fst blk = [f] \<and> m < length (render f)
                    \<and> snd blk = map snd pairs
                    \<and> (\<forall>q \<in> set pairs. set (fst q) \<subseteq> {nl}) \<and> set tail \<subseteq> {nl}
                    \<and> render f = concat (map (\<lambda>q. fst q @ snd q) pairs) @ tail)"
      using Cons.IH by blast
    then show ?thesis by (intro exI[of _ blocks]) simp
  next
    case over: True
    show ?thesis
    proof (cases "length (render f) > m")
      case False
      with over have pend: "pend \<noteq> []" by (cases pend) auto
      from over False pend Cons.prems(1) have
        "chunk_loop m fs (chunks @ [?cur]) (concat (map render [f])) = Some out"
        by (simp add: Let_def)
      moreover have "\<forall>g \<in> set [f]. length (render g) \<le> m" using False by simp
      ultimately obtain blocks where
        b: "out = (chunks @ [?cur]) @ concat (map snd blocks)" "concat (map fst blocks) = [f] @ fs"
        "\<forall>blk \<in> set blocks.
                 (fst blk \<noteq> [] \<and> (\<forall>f \<in> set (fst blk). length (render f) \<le> m)
                    \<and> snd blk = [concat (map render (fst blk))])
               \<or> (\<exists>f pairs tail. fst blk = [f] \<and> m < length (render f)
                    \<and> snd blk = map snd pairs
                    \<and> (\<forall>q \<in> set pairs. set (fst q) \<subseteq> {nl}) \<and> set tail \<subseteq> {nl}
                    \<and> render f = concat (map (\<lambda>q. fst q @ snd q) pairs) @ tail)"
        using Cons.IH by blast
      from b(1,2) pend have "out = chunks @ concat (map snd ((pend, [?cur]) # blocks))"
        "concat (map fst ((pend, [?cur]) # blocks)) = pend @ f # fs"
        by simp_all
      moreover from b(3) flushed_ok pend have "\<forall>blk \<in> set ((pend, [?cur]) # blocks).
                 (fst blk \<noteq> [] \<and> (\<forall>f \<in> set (fst blk). length (render f) \<le> m)
                    \<and> snd blk = [concat (map render (fst blk))])
               \<or> (\<exists>f pairs tail. fst blk = [f] \<and> m < length (render f)
                    \<and> snd blk = map snd pairs
                    \<and> (\<forall>q \<in> set pairs. set (fst q) \<subseteq> {nl}) \<and> set tail \<subseteq> {nl}
                    \<and> render f = concat (map (\<lambda>q. fst q @ snd q) pairs) @ tail)"
        by simp
      ultimately show ?thesis by blast
    next
      case True
      let ?chunks1 = "if pend = [] then chunks else chunks @ [?cur]"
      from over True Cons.prems(1) obtain parts where
        parts: "splitLongContent (render f) m = Some parts"
               "chunk_loop m fs (?chunks1 @ parts) (concat (map render [])) = Some out"
        by (cases "pend = []") (auto simp: Let_def split: option.splits)
      from splitLongContent_tiles[OF assms parts(1)] obtain pairs tail where
        t: "parts = map snd pairs" "\<forall>q \<in> set pairs. set (fst q) \<subseteq> {nl}" "set tail \<subseteq> {nl}"
           "render f = concat (map (\<lambda>q. fst q @ snd q) pairs) @ tail"
        by blast
      from Cons.IH[OF parts(2)] obtain blocks where
        b: "out = (?chunks1 @ parts) @ concat (map snd blocks)" "concat (map fst blocks) = [] @ fs"
        "\<forall>blk \<in> set blocks.
                 (fst blk \<noteq> [] \<and> (\<forall>f \<in> set (fst blk). length (render f) \<le> m)
                    \<and> snd blk = [concat (map render (fst blk))])
               \<or> (\<exists>f pairs tail. fst blk = [f] \<and> m < length (render f)
                    \<and> snd blk = map snd pairs
                    \<and> (\<forall>q \<in> set pairs. set (fst q) \<subseteq> {nl}) \<and> set tail \<subseteq> {nl}
                    \<and> render f = concat (map (\<lambda>q. fst q @ snd q) pairs) @ tail)"
        by auto
      let ?blocks = "?flushed @ ([f], parts) # blocks"
      from b(1,2) have "out = chunks @ concat (map snd ?blocks)"
        "concat (map fst ?blocks) = pend @ f # fs"
        by simp_all
      moreover have "(\<exists>g pairs tail. fst ([f], parts) = [g] \<and> m < length (render g)
                    \<and> snd ([f], parts) = map snd pairs
                    \<and> (\<forall>q \<in> set pairs. set (fst q) \<subseteq> {nl}) \<and> set tail \<subseteq> {nl}
                    \<and> render g = concat (map (\<lambda>q. fst q @ snd q) pairs) @ tail)"
        using True t by auto
      with b(3) flushed_ok have "\<forall>blk \<in> set ?blocks.
                 (fst blk \<noteq> [] \<and> (\<forall>f \<in> set (fst blk). length (render f) \<le> m)
                    \<and> snd blk = [concat (map render (fst blk))])
               \<or> (\<exists>f pairs tail. fst blk = [f] \<and> m < length (render f)
                    \<and> snd blk = map snd pairs
                    \<and> (\<forall>q \<in> set pairs. set (fst q) \<subseteq> {nl}) \<and> set tail \<subseteq> {nl}
                    \<and> render f = concat (map (\<lambda>q. fst q @ snd q) pairs) @ tail)"
        by (cases "pend = []") simp_all
      ultimately show ?thesis by blast
    qed
  qed
qed

text \<open>
  C2, as amended. For every file list and every \<open>maxChunkSize > 0\<close> the chunks follow
  the files in consecutive groups. A chunk flushed from the buffer of the file loop is
  exactly the renderings \<open>File: path\<close>, blank line, content, blank line of the
  consecutive files it holds, none of them longer than \<open>maxChunkSize\<close>. The chunks made
  from a rendering longer than \<open>maxChunkSize\<close> are consecutive pieces of that rendering,
  in order: between them, before the first and after the last the rendering has
  newlines only, which are dropped; how many newlines a cut drops is left open. So the
  chunks put together are the renderings put together once every newline is deleted,
  and are the renderings as they stand when no rendering is longer than
  \<open>maxChunkSize\<close>.
\<close>

theorem chunks_concat_up_to_newlines:
  assumes "0 < maxChunkSize"
  shows "\<exists>chunks blocks.
           chunk_files maxChunkSize files = Some chunks
         \<and> concat (map fst blocks) = files
         \<and> concat (map snd blocks) = chunks
         \<and> (\<forall>(fs, cs) \<in> set blocks.
               (fs \<noteq> [] \<and> (\<forall>f \<in> set fs. length (render f) \<le> maxChunkSize)
                  \<and> cs = [concat (map render fs)])
             \<or> (\<exists>f pairs tail. fs = [f] \<and> maxChunkSize < length (render f)
                  \<and> cs = map snd pairs
                  \<and> (\<forall>q \<in> set pairs. set (fst q) \<subseteq> {nl}) \<and> set tail \<subseteq> {nl}
                  \<and> render f = concat (map (\<lambda>q. fst q @ snd q) pairs) @ tail))
         \<and> filter (\<lambda>c. c \<noteq> nl) (concat chunks)
             = filter (\<lambda>c. c \<noteq> nl) (concat (map render files))
         \<and> ((\<forall>f \<in> set files. length (render f) \<le> maxChunkSize) \<longrightarrow>
               concat chunks = concat (map render files))"
proof -
  from chunk_loop_traced_bounded[OF assms, of "[]" "[]" files] obtain chunks where
    c: "chunk_loop maxChunkSize files [] [] = Some chunks"
    by auto
  then have "chunk_loop maxChunkSize files [] (concat (map render [])) = Some chunks"
    by simp
  from chunk_loop_blocks[OF assms this] obtain blocks where
    b: "chunks = concat (map snd blocks)" "concat (map fst blocks) = files"
       "\<forall>blk \<in> set blocks.
           (fst blk \<noteq> [] \<and> (\<forall>f \<in> set (fst blk). length (render f) \<le> maxChunkSize)
              \<and> snd blk = [concat (map render (fst blk))])
         \<or> (\<exists>f pairs tail. fst blk = [f] \<and> maxChunkSize < length (render f)
              \<and> snd blk = map snd pairs
              \<and> (\<forall>q \<in> set pairs. set (fst q) \<subseteq> {nl}) \<and> set tail \<subseteq> {nl}
              \<and> render f = concat (map (\<lambda>q. fst q @ snd q) pairs) @ tail)"
    by auto
  from b(3) have b3: "\<forall>(fs, cs) \<in> set blocks.
               (fs \<noteq> [] \<and> (\<forall>f \<in> set fs. length (render f) \<le> maxChunkSize)
                  \<and> cs = [concat (map render fs)])
             \<or> (\<exists>f pairs tail. fs = [f] \<and> maxChunkSize < length (render f)
                  \<and> cs = map snd pairs
                  \<and> (\<forall>q \<in> set pairs. set (fst q) \<subseteq> {nl}) \<and> set tail \<subseteq> {nl}
                  \<and> render f = concat (map (\<lambda>q. fst q @ snd q) pairs) @ tail)"
    by (simp add: case_prod_beta)
  from chunk_loop_concat[OF assms c] have s: "filter (\<lambda>c. c \<noteq> nl) (concat chunks)
             = filter (\<lambda>c. c \<noteq> nl) (concat (map render files))"
    by simp
  from chunk_loop_exact[OF _ c] have e: "(\<forall>f \<in> set files. length (render f) \<le> maxChunkSize) \<longrightarrow>
               concat chunks = concat (map render files)"
    by simp
  from c b(1,2) b3 s e show ?thesis
    unfolding chunk_files_def by (intro exI[of _ chunks] exI[of _ blocks]) blast
qed

theorem chunks_concat_up_to_newlines_witness:
  "(0::nat) < 1500
   \<and> chunk_files 1500 [\<lparr>name = ''main.go'', content = replicate 10 (CHR ''a'')\<rparr>,
                        \<lparr>name = ''util.go'', content = replicate 2000 (CHR ''b'')\<rparr>]
       = Some example_chunks
   \<and> (\<exists>blocks.
         concat (map fst blocks) = [\<lparr>name = ''main.go'', content = replicate 10 (CHR ''a'')\<rparr>,
                                    \<lparr>name = ''util.go'', content = replicate 2000 (CHR ''b'')\<rparr>]
       \<and> concat (map snd blocks) = example_chunks
       \<and> (\<forall>(fs, cs) \<in> set blocks.
               (fs \<noteq> [] \<and> (\<forall>f \<in> set fs. length (render f) \<le> 1500)
                  \<and> cs = [concat (map render fs)])
             \<or> (\<exists>f pairs tail. fs = [f] \<and> 1500 < length (render f)
                  \<and> cs = map snd pairs
                  \<and> (\<forall>q \<in> set pairs. set (fst q) \<subseteq> {nl}) \<and> set tail \<subseteq> {nl}
                  \<and> render f = concat (map (\<lambda>q. fst q @ snd q) pairs) @ tail)))"
  using chunks_concat_up_to_newlines [of 1500
      "[\<lparr>name = ''main.go'', content = replicate 10 (CHR ''a'')\<rparr>,
        \<lparr>name = ''util.go'', content = replicate 2000 (CHR ''b'')\<rparr>]"]
  unfolding example_chunk_files
  by auto

text \<open>
  C2 as stated fails on the corpus of the worked example: the chunks of \<open>util.go\<close> have
  lost the second newline after the header line and the two newlines after the
  content, so that the chunks hold 2041 characters and the renderings 2044.
\<close>

theorem chunks_concat_counterexample:
  "map_option concat (chunk_files 1500 (sort_Slice (collect_files example_corpus)))
     \<noteq> Some (concat (map render (sort_Slice (collect_files example_corpus))))"
proof
  assume "map_option concat (chunk_files 1500 (sort_Slice (collect_files example_corpus)))
     = Some (concat (map render (sort_Slice (collect_files example_corpus))))"
  then have "concat example_chunks
     = concat (map render [\<lparr>name = ''main.go'', content = replicate 10 (CHR ''a'')\<rparr>,
                           \<lparr>name = ''util.go'', content = replicate 2000 (CHR ''b'')\<rparr>])"
    by (simp add: example_sorted example_chunk_files)
  then have "length (concat example_chunks)
     = length (concat (map render [\<lparr>name = ''main.go'', content = replicate 10 (CHR ''a'')\<rparr>,
                           \<lparr>name = ''util.go'', content = replicate 2000 (CHR ''b'')\<rparr>]))"
    by (rule arg_cong)
  then show False
    by (simp add: example_chunks_def render_def)
qed

section \<open>Properties of the detailed path\<close>

lemma analyze_chunks_all_ok:
  assumes "\<forall>j < length cs. \<exists>t.
             complete (calls st @ map chunk_prompt (take j cs)) (chunk_prompt (cs ! j)) = Inr t"
  shows "\<exists>ds st'. analyze_chunks complete progress n i cs descs st = (Inr (descs @ ds), st')
           \<and> length ds = length cs
           \<and> calls st' = calls st @ map chunk_prompt cs"
  using assms
proof (induction cs arbitrary: i descs st)
  case Nil
  then show ?case by simp
next
  case (Cons c cs)
  from Cons.prems[rule_format, of 0] obtain t where
    t: "complete (calls st) (chunk_prompt c) = Inr t" by auto
  let ?st2 = "report progress (''Analysis response'', i + 1, n, t)
      ((report progress (''Analyzing chunks'', i + 1, n, []) st)
         \<lparr>calls := calls st @ [chunk_prompt c]\<rparr>)"
  have c2: "calls ?st2 = calls st @ [chunk_prompt c]" by simp
  have "\<forall>j < length cs. \<exists>t.
          complete (calls ?st2 @ map chunk_prompt (take j cs)) (chunk_prompt (cs ! j)) = Inr t"
  proof (intro allI impI)
    fix j assume "j < length cs"
    with Cons.prems[rule_format, of "Suc j"] show "\<exists>t.
          complete (calls ?st2 @ map chunk_prompt (take j cs)) (chunk_prompt (cs ! j)) = Inr t"
      unfolding c2 by simp
  qed
  from Cons.IH[OF this, of "i + 1" "descs @ [t]"] obtain ds st' where
    r: "analyze_chunks complete progress n (i + 1) cs (descs @ [t]) ?st2 = (Inr ((descs @ [t]) @ ds), st')"
       "length ds = length cs" "calls st' = calls ?st2 @ map chunk_prompt cs"
    by blast
  have "analyze_chunks complete progress n i (c # cs) descs st = (Inr (descs @ t # ds), st')"
    using t r(1) by (simp add: makeRequest_def Let_def)
  moreover have "calls st' = calls st @ map chunk_prompt (c # cs)"
    using r(3) unfolding c2 by simp
  ultimately show ?case using r(2)
    by (intro exI[of _ "t # ds"] exI[of _ st']) simp
qed

lemma analyze_chunks_first_failure:
  assumes "k < length cs"
      and "\<forall>j < k. \<exists>t.
             complete (calls st @ map chunk_prompt (take j cs)) (chunk_prompt (cs ! j)) = Inr t"
      and "complete (calls st @ map chunk_prompt (take k cs)) (chunk_prompt (cs ! k)) = Inl err"
  shows "\<exists>st'. analyze_chunks complete progress n i cs descs st
                  = (Inl (AnalyzeChunk (i + k + 1) err), st')
           \<and> calls st' = calls st @ map chunk_prompt (take (Suc k) cs)"
  using assms
proof (induction cs arbitrary: k i descs st)
  case Nil
  then show ?case by simp
next
  case (Cons c cs)
  show ?case
  proof (cases k)
    case 0
    with Cons.prems(3) have "complete (calls st) (chunk_prompt c) = Inl err" by simp
    with 0 show ?thesis by (simp add: makeRequest_def Let_def)
  next
    case (Suc k')
    from Cons.prems(2)[rule_format, of 0] Suc obtain t where
      t: "complete (calls st) (chunk_prompt c) = Inr t" by auto
    let ?st2 = "report progress (''Analysis response'', i + 1, n, t)
        ((report progress (''Analyzing chunks'', i + 1, n, []) st)
           \<lparr>calls := calls st @ [chunk_prompt c]\<rparr>)"
    have c2: "calls ?st2 = calls st @ [chunk_prompt c]" by simp
    have k': "k' < length cs" using Cons.prems(1) Suc by simp
    have ok: "\<forall>j < k'. \<exists>t.
          complete (calls ?st2 @ map chunk_prompt (take j cs)) (chunk_prompt (cs ! j)) = Inr t"
    proof (intro allI impI)
      fix j assume "j < k'"
      with Cons.prems(2)[rule_format, of "Suc j"] Suc show "\<exists>t.
          complete (calls ?st2 @ map chunk_prompt (take j cs)) (chunk_prompt (cs ! j)) = Inr t"
        unfolding c2 by simp
    qed
    have bad: "complete (calls ?st2 @ map chunk_prompt (take k' cs)) (chunk_prompt (cs ! k')) = Inl err"
      using Cons.prems(3) Suc unfolding c2 by simp
    from Cons.IH[OF k' ok bad, of "i + 1" "descs @ [t]"] obtain st' where
      r: "analyze_chunks complete progress n (i + 1) cs (descs @ [t]) ?st2
            = (Inl (AnalyzeChunk (i + 1 + k' + 1) err), st')"
         "calls st' = calls ?st2 @ map chunk_prompt (take (Suc k') cs)"
      by blast
    have "analyze_chunks complete progress n i (c # cs) descs st
            = (Inl (AnalyzeChunk (i + k + 1) err), st')"
      using t r(1) Suc by (simp add: makeRequest_def Let_def)
    moreover have "calls st' = calls st @ map chunk_prompt (take (Suc k) (c # cs))"
      using r(2) Suc unfolding c2 by simp
    ultimately show ?thesis by blast
  qed
qed

lemma detailed_all_chunks_ok:
  assumes "IsDetailed input"
      and "chunk_files 1500 (sort_Slice (collect_files (Files input))) = Some chunks"
      and "1 < length chunks"
      and "\<forall>j < length chunks. \<exists>t.
             complete (calls st @ map chunk_prompt (take j chunks)) (chunk_prompt (chunks ! j)) = Inr t"
  shows "\<exists>ds res st'. Analyze complete fmt_pct input progress st = Some (res, st')
           \<and> length ds = length chunks
           \<and> calls st' = calls st @ map chunk_prompt chunks @ [summary_prompt ds]
           \<and> (\<forall>final. complete (calls st @ map chunk_prompt chunks) (summary_prompt ds) = Inr final
                  \<longrightarrow> res = Ok (analyze_output final))
           \<and> (\<forall>err. complete (calls st @ map chunk_prompt chunks) (summary_prompt ds) = Inl err
                  \<longrightarrow> res = Failed (GenerateSummary err))"
proof -
  let ?st1 = "processing_files progress
      (length (sort_Slice (collect_files (Files input)))) st"
  have "\<forall>j < length chunks. \<exists>t.
          complete (calls ?st1 @ map chunk_prompt (take j chunks)) (chunk_prompt (chunks ! j)) = Inr t"
    using assms(4) by simp
  from analyze_chunks_all_ok[OF this, of progress "length chunks" 0 "[]"] obtain ds st2 where
    r: "analyze_chunks complete progress (length chunks) 0 chunks [] ?st1 = (Inr ds, st2)"
       "length ds = length chunks" "calls st2 = calls st @ map chunk_prompt chunks"
    by auto
  have d: "Analyze complete fmt_pct input progress st = Some (combine complete progress ds st2)"
    using assms(1,2) r(1) by (simp add: Analyze_def Analyze_detailed_def Let_def)
  have len: "1 < length ds" using r(2) assms(3) by simp
  show ?thesis
  proof (cases "complete (calls st @ map chunk_prompt chunks) (summary_prompt ds)")
    case (Inl err)
    with len r(3) obtain st' where
      "combine complete progress ds st2 = (Failed (GenerateSummary err), st')"
      "calls st' = calls st @ map chunk_prompt chunks @ [summary_prompt ds]"
      by (simp add: combine_def makeRequest_def Let_def)
    with d r(2) Inl show ?thesis
      by (intro exI[of _ ds] exI[of _ "Failed (GenerateSummary err)"] exI[of _ st']) simp
  next
    case (Inr final)
    with len r(3) obtain st' where
      "combine complete progress ds st2 = (Ok (analyze_output final), st')"
      "calls st' = calls st @ map chunk_prompt chunks @ [summary_prompt ds]"
      by (simp add: combine_def makeRequest_def Let_def first_description_def)
    with d r(2) Inr show ?thesis
      by (intro exI[of _ ds] exI[of _ "Ok (analyze_output final)"] exI[of _ st']) simp
  qed
qed

text \<open>
  C4. When the chunker gives exactly one chunk, \<open>Analyze\<close> makes exactly one request,
  the one for that chunk, and none to combine; when the request succeeds the
  description returned is its text, unchanged, and the other fields are empty.
\<close>

theorem single_chunk_single_call:
  assumes "IsDetailed input"
      and "chunk_files 1500 (sort_Slice (collect_files (Files input))) = Some [chunk]"
  shows "\<exists>res st'. Analyze complete fmt_pct input progress st = Some (res, st')
           \<and> calls st' = calls st @ [chunk_prompt chunk]
           \<and> (\<forall>response. complete (calls st) (chunk_prompt chunk) = Inr response \<longrightarrow>
                 (\<exists>out. res = Ok out \<and> Description out = response \<and> Architecture out = []
                    \<and> Components out = [] \<and> Setup out = [] \<and> FlowDiagram out = []))
           \<and> (\<forall>err. complete (calls st) (chunk_prompt chunk) = Inl err \<longrightarrow>
                 res = Failed (AnalyzeChunk 1 err))"
proof (cases "complete (calls st) (chunk_prompt chunk)")
  case (Inl err)
  with assms show ?thesis
    by (simp add: Analyze_def Analyze_detailed_def makeRequest_def Let_def)
next
  case (Inr t)
  with assms show ?thesis
    by (simp add: Analyze_def Analyze_detailed_def makeRequest_def Let_def combine_def
        first_description_def analyze_output_def)
qed

theorem single_chunk_single_call_witness:
  "IsDetailed \<lparr>Files = [(''main.go'', ''package main'')], Languages = [], ContextSize = 0,
        DirStructure = ''.'', IsDetailed = True\<rparr>
   \<and> chunk_files 1500 (sort_Slice (collect_files (Files
        \<lparr>Files = [(''main.go'', ''package main'')], Languages = [], ContextSize = 0,
         DirStructure = ''.'', IsDetailed = True\<rparr>)))
       = Some [render \<lparr>name = ''main.go'', content = ''package main''\<rparr>]
   \<and> (\<exists>out st'.
         Analyze (\<lambda>h p. Inr ''one file'' :: unit + string) (\<lambda>u :: unit. ''0.0'')
           \<lparr>Files = [(''main.go'', ''package main'')], Languages = [], ContextSize = 0,
            DirStructure = ''.'', IsDetailed = True\<rparr> True \<lparr>calls = [], events = []\<rparr>
           = Some (Ok out, st')
       \<and> Description out = ''one file''
       \<and> calls st' = [chunk_prompt (render \<lparr>name = ''main.go'', content = ''package main''\<rparr>)])"
proof -
  let ?input = "\<lparr>Files = [(''main.go'', ''package main'')], Languages = [], ContextSize = 0,
        DirStructure = ''.'', IsDetailed = True\<rparr> :: unit AnalyzeInput"
  have h1: "IsDetailed ?input" by simp
  have h2: "chunk_files 1500 (sort_Slice (collect_files (Files ?input)))
       = Some [render \<lparr>name = ''main.go'', content = ''package main''\<rparr>]"
    by (simp add: collect_files_def single_small_file_one_chunk render_def)
  from single_chunk_single_call [where st = "\<lparr>calls = [], events = []\<rparr>"
      and complete = "\<lambda>h p. Inr ''one file'' :: unit + string"
      and fmt_pct = "\<lambda>u :: unit. ''0.0''" and progress = True, OF h1 h2] h1 h2
  show ?thesis by auto
qed

text \<open>
  C5. When the chunker gives \<open>N > 1\<close> chunks and each of the \<open>N\<close> requests for a chunk
  succeeds, \<open>Analyze\<close> makes those \<open>N\<close> requests, in the order of the chunks, and then
  exactly one request to combine the \<open>N\<close> descriptions: \<open>N + 1\<close> requests in all. The
  result is the text of the last request, or its error.
\<close>

theorem many_chunks_calls:
  assumes "IsDetailed input"
      and "chunk_files 1500 (sort_Slice (collect_files (Files input))) = Some chunks"
      and "1 < length chunks"
      and "\<forall>j < length chunks. \<exists>t.
             complete (calls st @ map chunk_prompt (take j chunks)) (chunk_prompt (chunks ! j)) = Inr t"
  shows "\<exists>ds res st'. Analyze complete fmt_pct input progress st = Some (res, st')
           \<and> length ds = length chunks
           \<and> calls st' = calls st @ map chunk_prompt chunks @ [summary_prompt ds]
           \<and> (\<forall>final. complete (calls st @ map chunk_prompt chunks) (summary_prompt ds) = Inr final
                  \<longrightarrow> res = Ok (analyze_output final))
           \<and> (\<forall>err. complete (calls st @ map chunk_prompt chunks) (summary_prompt ds) = Inl err
                  \<longrightarrow> res = Failed (GenerateSummary err))"
  using assms by (rule detailed_all_chunks_ok)

theorem many_chunks_calls_witness:
  "IsDetailed \<lparr>Files = example_corpus, Languages = [], ContextSize = 0, DirStructure = ''.'',
        IsDetailed = True\<rparr>
   \<and> chunk_files 1500 (sort_Slice (collect_files (Files
        \<lparr>Files = example_corpus, Languages = [], ContextSize = 0, DirStructure = ''.'',
         IsDetailed = True\<rparr>))) = Some example_chunks
   \<and> 1 < length example_chunks
   \<and> (\<exists>ds st'.
         Analyze (\<lambda>h p. Inr ''ok'' :: unit + string) (\<lambda>u :: unit. ''0.0'')
           \<lparr>Files = example_corpus, Languages = [], ContextSize = 0, DirStructure = ''.'',
            IsDetailed = True\<rparr> True \<lparr>calls = [], events = []\<rparr>
           = Some (Ok (analyze_output ''ok''), st')
       \<and> length ds = length example_chunks
       \<and> calls st' = map chunk_prompt example_chunks @ [summary_prompt ds])"
proof -
  let ?input = "\<lparr>Files = example_corpus, Languages = [], ContextSize = 0, DirStructure = ''.'',
        IsDetailed = True\<rparr> :: unit AnalyzeInput"
  let ?complete = "\<lambda>h p. Inr ''ok'' :: unit + string"
  have h1: "IsDetailed ?input" by simp
  have h2: "chunk_files 1500 (sort_Slice (collect_files (Files ?input))) = Some example_chunks"
    by (simp add: example_sorted example_chunk_files)
  have h3: "1 < length example_chunks" by (simp add: length_example_chunks)
  have h4: "\<forall>j < length example_chunks. \<exists>t.
      ?complete (calls \<lparr>calls = [], events = []\<rparr> @ map chunk_prompt (take j example_chunks))
        (chunk_prompt (example_chunks ! j)) = Inr t"
    by simp
  from many_chunks_calls [where st = "\<lparr>calls = [], events = []\<rparr>" and complete = ?complete
      and fmt_pct = "\<lambda>u :: unit. ''0.0''" and progress = True, OF h1 h2 h3 h4] h1 h2 h3
  show ?thesis by auto
qed

text \<open>
  C6. When the request for chunk \<open>k\<close> (counted from 1) is the first to fail, the requests
  made are those for the chunks 1 to \<open>k\<close> and no other: none for a later chunk, none to
  combine. The error returned carries \<open>k\<close> and the error of that request.
\<close>

theorem first_failure_stops:
  assumes "IsDetailed input"
      and "chunk_files 1500 (sort_Slice (collect_files (Files input))) = Some chunks"
      and "1 \<le> k" and "k \<le> length chunks"
      and "\<forall>j < k - 1. \<exists>t.
             complete (calls st @ map chunk_prompt (take j chunks)) (chunk_prompt (chunks ! j)) = Inr t"
      and "complete (calls st @ map chunk_prompt (take (k - 1) chunks))
             (chunk_prompt (chunks ! (k - 1))) = Inl err"
  shows "\<exists>st'. Analyze complete fmt_pct input progress st = Some (Failed (AnalyzeChunk k err), st')
           \<and> calls st' = calls st @ map chunk_prompt (take k chunks)"
proof -
  let ?st1 = "processing_files progress
      (length (sort_Slice (collect_files (Files input)))) st"
  have k: "k - 1 < length chunks" using assms(3,4) by simp
  have ok: "\<forall>j < k - 1. \<exists>t.
          complete (calls ?st1 @ map chunk_prompt (take j chunks)) (chunk_prompt (chunks ! j)) = Inr t"
    using assms(5) by simp
  have bad: "complete (calls ?st1 @ map chunk_prompt (take (k - 1) chunks))
             (chunk_prompt (chunks ! (k - 1))) = Inl err"
    using assms(6) by simp
  from analyze_chunks_first_failure[OF k ok bad, of progress "length chunks" 0 "[]"]
  obtain st' where
    r: "analyze_chunks complete progress (length chunks) 0 chunks [] ?st1
          = (Inl (AnalyzeChunk (0 + (k - 1) + 1) err), st')"
       "calls st' = calls ?st1 @ map chunk_prompt (take (Suc (k - 1)) chunks)"
    by blast
  have "Analyze complete fmt_pct input progress st = Some (Failed (AnalyzeChunk k err), st')"
    using assms(1,2,3) r(1) by (simp add: Analyze_def Analyze_detailed_def Let_def)
  moreover have "calls st' = calls st @ map chunk_prompt (take k chunks)"
    using r(2) assms(3) by simp
  ultimately show ?thesis by blast
qed

theorem first_failure_stops_witness:
  "IsDetailed \<lparr>Files = example_corpus, Languages = [], ContextSize = 0, DirStructure = ''.'',
        IsDetailed = True\<rparr>
   \<and> chunk_files 1500 (sort_Slice (collect_files (Files
        \<lparr>Files = example_corpus, Languages = [], ContextSize = 0, DirStructure = ''.'',
         IsDetailed = True\<rparr>))) = Some example_chunks
   \<and> (1::nat) \<le> 3 \<and> 3 \<le> length example_chunks
   \<and> (\<exists>st'.
         Analyze (\<lambda>h p. if length h < 2 then Inr ''ok'' else Inl ''timeout'') (\<lambda>u :: unit. ''0.0'')
           \<lparr>Files = example_corpus, Languages = [], ContextSize = 0, DirStructure = ''.'',
            IsDetailed = True\<rparr> True \<lparr>calls = [], events = []\<rparr>
           = Some (Failed (AnalyzeChunk 3 ''timeout''), st')
       \<and> calls st' = map chunk_prompt (take 3 example_chunks))"
proof -
  let ?input = "\<lparr>Files = example_corpus, Languages = [], ContextSize = 0, DirStructure = ''.'',
        IsDetailed = True\<rparr> :: unit AnalyzeInput"
  let ?complete = "\<lambda>(h :: string list) (p :: string).
      if length h < 2 then Inr ''ok'' else (Inl ''timeout'' :: string + string)"
  have h1: "IsDetailed ?input" by simp
  have h2: "chunk_files 1500 (sort_Slice (collect_files (Files ?input))) = Some example_chunks"
    by (simp add: example_sorted example_chunk_files)
  have h3: "(1::nat) \<le> 3" by simp
  have h4: "3 \<le> length example_chunks" by (simp add: length_example_chunks)
  have h5: "\<forall>j < 3 - 1. \<exists>t.
      ?complete (calls \<lparr>calls = [], events = []\<rparr> @ map chunk_prompt (take j example_chunks))
        (chunk_prompt (example_chunks ! j)) = Inr t"
    by (simp add: length_example_chunks)
  have h6: "?complete (calls \<lparr>calls = [], events = []\<rparr> @ map chunk_prompt (take (3 - 1) example_chunks))
        (chunk_prompt (example_chunks ! (3 - 1))) = Inl ''timeout''"
    by (simp add: length_example_chunks)
  from first_failure_stops [where st = "\<lparr>calls = [], events = []\<rparr>" and complete = ?complete
      and fmt_pct = "\<lambda>u :: unit. ''0.0''" and progress = True, OF h1 h2 h3 h4 h5 h6] h1 h2 h4
  show ?thesis by auto
qed

text \<open>
  C3, as amended. For the corpus of \<open>main.go\<close> with ten times \<open>a\<close> and \<open>util.go\<close> with
  2000 times \<open>b\<close>, in either visiting order, \<open>main.go\<close> comes first and the chunker
  gives exactly 4 chunks: the rendering of \<open>main.go\<close>, the header line of \<open>util.go\<close>
  with one newline, and the windows of 1500 and of 500 characters of its one long
  line. When every request succeeds, \<open>Analyze\<close> makes 4 requests for chunks and 1 to
  combine, 5 in all.
\<close>

theorem example_corpus_four_chunks:
  assumes "Files input = example_corpus \<or> Files input = rev example_corpus"
      and "IsDetailed input"
      and "\<forall>h p. \<exists>t. complete h p = Inr t"
  shows "sort_Slice (collect_files (Files input))
           = [\<lparr>name = ''main.go'', content = replicate 10 (CHR ''a'')\<rparr>,
              \<lparr>name = ''util.go'', content = replicate 2000 (CHR ''b'')\<rparr>]
       \<and> chunk_files 1500 (sort_Slice (collect_files (Files input)))
           = Some [''File: main.go'' @ [nl, nl] @ replicate 10 (CHR ''a'') @ [nl, nl],
                   ''File: util.go'' @ [nl],
                   replicate 1500 (CHR ''b''),
                   replicate 500 (CHR ''b'')]
       \<and> (\<exists>ds final st'.
             Analyze complete fmt_pct input progress st = Some (Ok (analyze_output final), st')
           \<and> length ds = 4
           \<and> calls st' = calls st @ map chunk_prompt example_chunks @ [summary_prompt ds]
           \<and> length (calls st') = length (calls st) + 5)"
proof -
  from assms(1) have s: "sort_Slice (collect_files (Files input))
           = [\<lparr>name = ''main.go'', content = replicate 10 (CHR ''a'')\<rparr>,
              \<lparr>name = ''util.go'', content = replicate 2000 (CHR ''b'')\<rparr>]"
    by (auto simp: example_sorted)
  then have c: "chunk_files 1500 (sort_Slice (collect_files (Files input))) = Some example_chunks"
    by (simp add: example_chunk_files)
  have ok: "\<forall>j < length example_chunks. \<exists>t.
      complete (calls st @ map chunk_prompt (take j example_chunks))
        (chunk_prompt (example_chunks ! j)) = Inr t"
    using assms(3) by simp
  from detailed_all_chunks_ok[OF assms(2) c _ ok, of fmt_pct progress] obtain ds res st' where
    r: "Analyze complete fmt_pct input progress st = Some (res, st')"
       "length ds = length example_chunks"
       "calls st' = calls st @ map chunk_prompt example_chunks @ [summary_prompt ds]"
       "\<forall>final. complete (calls st @ map chunk_prompt example_chunks) (summary_prompt ds) = Inr final
                  \<longrightarrow> res = Ok (analyze_output final)"
    by (auto simp: length_example_chunks)
  from assms(3) obtain final where
    "complete (calls st @ map chunk_prompt example_chunks) (summary_prompt ds) = Inr final"
    by blast
  with r(4) have "res = Ok (analyze_output final)" by simp
  with r(1,2,3) have "\<exists>ds final st'.
             Analyze complete fmt_pct input progress st = Some (Ok (analyze_output final), st')
           \<and> length ds = 4
           \<and> calls st' = calls st @ map chunk_prompt example_chunks @ [summary_prompt ds]
           \<and> length (calls st') = length (calls st) + 5"
    by (intro exI[of _ ds] exI[of _ final] exI[of _ st']) (simp add: length_example_chunks)
  with s c show ?thesis by (simp add: example_chunks_def)
qed

theorem example_corpus_four_chunks_witness:
  "(Files \<lparr>Files = example_corpus, Languages = [], ContextSize = 0, DirStructure = ''.'',
        IsDetailed = True\<rparr> = example_corpus
     \<or> Files \<lparr>Files = example_corpus, Languages = [], ContextSize = 0, DirStructure = ''.'',
        IsDetailed = True\<rparr> = rev example_corpus)
   \<and> IsDetailed \<lparr>Files = example_corpus, Languages = [], ContextSize = 0, DirStructure = ''.'',
        IsDetailed = True\<rparr>
   \<and> (\<forall>h p. \<exists>t. (Inr ''ok'' :: unit + string) = Inr t)
   \<and> (\<exists>ds final st'.
         Analyze (\<lambda>h p. Inr ''ok'' :: unit + string) (\<lambda>u :: unit. ''0.0'')
           \<lparr>Files = example_corpus, Languages = [], ContextSize = 0, DirStructure = ''.'',
            IsDetailed = True\<rparr> True \<lparr>calls = [], events = []\<rparr>
           = Some (Ok (analyze_output final), st')
       \<and> length ds = 4
       \<and> calls st' = map chunk_prompt example_chunks @ [summary_prompt ds]
       \<and> length (calls st') = 5)"
  using example_corpus_four_chunks [of
      "\<lparr>Files = example_corpus, Languages = [], ContextSize = 0, DirStructure = ''.'',
        IsDetailed = True\<rparr>"
      "\<lambda>h p. Inr ''ok'' :: unit + string" "\<lambda>u :: unit. ''0.0''" True
      "\<lparr>calls = [], events = []\<rparr>"]
  by simp

text \<open>C3 as stated fails: the chunker does not give 3 chunks for that corpus.\<close>

theorem example_corpus_counterexample:
  "map_option length (chunk_files 1500 (sort_Slice (collect_files example_corpus))) \<noteq> Some 3"
  by (simp add: example_sorted example_chunk_files length_example_chunks)

end
